theory Spec2Isabelle
  imports Complex_Main "HOL-Library.Multiset" "HOL-Library.Code_Target_Nat"
begin

section \<open>Strings, numbers and big integers of the source language\<close>

text \<open>
  Addresses and symbols are strings. \<open>toLowerCase\<close> and \<open>toUpperCase\<close> are modelled on
  the ASCII letters, which is all that hexadecimal addresses and token symbols contain.
\<close>

definition toLowerChar :: "char \<Rightarrow> char" where
  "toLowerChar c =
     (let n = (of_char c :: int) in if 65 \<le> n \<and> n \<le> 90 then char_of (n + 32) else c)"

definition toUpperChar :: "char \<Rightarrow> char" where
  "toUpperChar c =
     (let n = (of_char c :: int) in if 97 \<le> n \<and> n \<le> 122 then char_of (n - 32) else c)"

definition toLowerCase :: "string \<Rightarrow> string" where
  "toLowerCase s = map toLowerChar s"

definition toUpperCase :: "string \<Rightarrow> string" where
  "toUpperCase s = map toUpperChar s"

text \<open>
  A \<open>number\<close> of the source is a double. Only comparisons are made on \<open>maxHops\<close>, so a
  finite value is kept as a rational; \<open>NaN\<close> and the two infinities are values of their own.
\<close>

datatype number = NaN | NegInf | Fin rat | PosInf

fun num_le :: "number \<Rightarrow> number \<Rightarrow> bool" where
  "num_le NaN _ = False"
| "num_le _ NaN = False"
| "num_le NegInf _ = True"
| "num_le _ PosInf = True"
| "num_le (Fin a) (Fin b) = (a \<le> b)"
| "num_le (Fin a) NegInf = False"
| "num_le PosInf (Fin b) = False"
| "num_le PosInf NegInf = False"

fun num_lt :: "number \<Rightarrow> number \<Rightarrow> bool" where
  "num_lt NaN _ = False"
| "num_lt _ NaN = False"
| "num_lt PosInf _ = False"
| "num_lt _ NegInf = False"
| "num_lt (Fin a) (Fin b) = (a < b)"
| "num_lt NegInf (Fin b) = True"
| "num_lt NegInf PosInf = True"
| "num_lt (Fin a) PosInf = True"

definition Math_min :: "number \<Rightarrow> number \<Rightarrow> number" where
  "Math_min a b = (if a = NaN \<or> b = NaN then NaN else if num_le a b then a else b)"

definition Math_max :: "number \<Rightarrow> number \<Rightarrow> number" where
  "Math_max a b = (if a = NaN \<or> b = NaN then NaN else if num_le a b then b else a)"

text \<open>Division of big integers truncates towards zero.\<close>

definition bigint_div :: "int \<Rightarrow> int \<Rightarrow> int" where
  "bigint_div a b = sgn a * sgn b * (\<bar>a\<bar> div \<bar>b\<bar>)"

section \<open>Token directory\<close>

text \<open>
  The process environment is a parameter: the wrapped native asset's address
  (\<open>DEFAULT_WBNB\<close>), the trimmed values of the \<open>ADDR_<SYMBOL>\<close> variables, the tokens of
  \<open>SERVER_QUOTE_INTERMEDIATES\<close> after splitting (\<open>None\<close> when the variable is unset or
  blank), the default fee tiers, and whether a provider and a v3 quoter contract can be
  built.
\<close>

record config =
  DEFAULT_WBNB :: string
  addr_env :: "string \<Rightarrow> string option"
  quote_intermediates :: "string list option"
  DEFAULT_V3_FEE_TIERS :: "int list"
  provider_available :: bool
  v3_quoter_available :: bool

definition is_hex_char :: "char \<Rightarrow> bool" where
  "is_hex_char c =
     (let n = (of_char c :: int) in
        (48 \<le> n \<and> n \<le> 57) \<or> (97 \<le> n \<and> n \<le> 102) \<or> (65 \<le> n \<and> n \<le> 70))"

text \<open>The test \<open>/^0x[a-fA-F0-9]{40}$/\<close>.\<close>

definition is_address :: "string \<Rightarrow> bool" where
  "is_address s = (take 2 s = ''0x'' \<and> length s = 42 \<and> list_all is_hex_char (drop 2 s))"

definition KNOWN_TOKENS :: "config \<Rightarrow> (string \<times> string) list" where
  "KNOWN_TOKENS cfg =
     [(''WBNB'', DEFAULT_WBNB cfg),
      (''BNB'', DEFAULT_WBNB cfg),
      (''BUSD'', ''0xe9e7CEA3DedcA5984780Bafc599bD69ADd087D56''),
      (''USDT'', ''0x55d398326f99059fF775485246999027B3197955''),
      (''USDC'', ''0x8ac76a51cc950d9822d68b83fe1ad97b32cd580d''),
      (''BTCB'', ''0x7130d2a12b9bcbfae4f2634d864a1ee1ce3ead9c''),
      (''BTC'', ''0x7130d2a12b9bcbfae4f2634d864a1ee1ce3ead9c''),
      (''ETH'', ''0x2170Ed0880ac9A755fd29B2688956BD959F933F8''),
      (''CAKE'', ''0x0E09Fabb73Bd3Ade0a17ECC321fD13a19e81cE82'')]"

definition getTokenAddressFromEnv :: "config \<Rightarrow> string \<Rightarrow> string option" where
  "getTokenAddressFromEnv cfg symbol =
     (case addr_env cfg (toUpperCase symbol) of
        None \<Rightarrow> None
      | Some val \<Rightarrow> if is_address val then Some val else None)"

definition getKnownTokenAddress :: "config \<Rightarrow> string \<Rightarrow> string option" where
  "getKnownTokenAddress cfg symbol =
     (let s = toUpperCase symbol in
        case getTokenAddressFromEnv cfg s of
          Some envAddr \<Rightarrow> Some envAddr
        | None \<Rightarrow>
            (case map_of (KNOWN_TOKENS cfg) s of
               Some addr \<Rightarrow> if addr \<noteq> [] then Some addr else None
             | None \<Rightarrow> None))"

definition getPreferredIntermediates :: "config \<Rightarrow> string list" where
  "getPreferredIntermediates cfg =
     (case quote_intermediates cfg of
        Some toks \<Rightarrow> filter (\<lambda>s. s \<noteq> []) (map toUpperCase toks)
      | None \<Rightarrow> [''WBNB'', ''USDT'', ''USDC''])"

definition resolveSymbolsToAddresses :: "config \<Rightarrow> string list \<Rightarrow> string list" where
  "resolveSymbolsToAddresses cfg symbols =
     concat (map (\<lambda>s. case getKnownTokenAddress cfg s of Some addr \<Rightarrow> [addr] | None \<Rightarrow> []) symbols)"

text \<open>The environment with no variable set.\<close>

definition default_config :: config where
  "default_config =
     \<lparr> DEFAULT_WBNB = ''0xBB4CdB9CBd36B01bD1cBaEBF2De08d9173bc095c'',
       addr_env = (\<lambda>_. None),
       quote_intermediates = None,
       DEFAULT_V3_FEE_TIERS = [100, 500, 2500, 10000],
       provider_available = True,
       v3_quoter_available = True \<rparr>"

section \<open>Path enumeration\<close>

text \<open>
  \<open>pathArr.filter((addr, i) => i === 0 || addr.toLowerCase() !== pathArr[i - 1].toLowerCase())\<close>:
  an element is compared with its predecessor in the original array.
\<close>

definition uniqueAddresses :: "string list \<Rightarrow> string list" where
  "uniqueAddresses pathArr =
     map (\<lambda>i. pathArr ! i)
       (filter (\<lambda>i. i = 0 \<or> toLowerCase (pathArr ! i) \<noteq> toLowerCase (pathArr ! (i - 1)))
          [0..<length pathArr])"

text \<open>
  The elements of a path that differ, after lowercasing, from their predecessor;
  \<open>prev\<close> is the predecessor of the first. It is \<open>uniqueAddresses\<close> without its first element.
\<close>

fun uniq_after :: "string \<Rightarrow> string list \<Rightarrow> string list" where
  "uniq_after prev [] = []"
| "uniq_after prev (a # as) =
     (if toLowerCase a \<noteq> toLowerCase prev then a # uniq_after a as else uniq_after a as)"

text \<open>\<open>Math.max(2, Math.min(4, Number(params.maxHops ?? 3)))\<close>\<close>

definition clampMaxHops :: "number option \<Rightarrow> number" where
  "clampMaxHops mh =
     Math_max (Fin 2) (Math_min (Fin 4) (case mh of None \<Rightarrow> Fin 3 | Some n \<Rightarrow> n))"

definition addPath :: "bool \<Rightarrow> number \<Rightarrow> string list list \<Rightarrow> string list \<Rightarrow> string list list" where
  "addPath allowMultiHop maxHops candidatePaths p =
     (let clean = uniqueAddresses p in
        if length clean \<ge> 2 \<and>
           (if \<not> allowMultiHop then length clean = 2
            else num_le (Fin (of_nat (length clean))) maxHops)
        then candidatePaths @ [clean]
        else candidatePaths)"

text \<open>
  The candidate paths of the constant-product quoter: the direct path, then one
  intermediate, then every ordered pair of intermediates at distinct indices.
\<close>

definition v2_candidatePaths ::
  "string \<Rightarrow> string \<Rightarrow> string list \<Rightarrow> bool \<Rightarrow> number \<Rightarrow> string list list" where
  "v2_candidatePaths fromAddr toAddr interAddrs allowMultiHop maxHops =
     (let add = addPath allowMultiHop maxHops;
          c0 = add [] [fromAddr, toAddr]
      in if allowMultiHop then
           (let c1 = foldl (\<lambda>c m. add c [fromAddr, m, toAddr]) c0 interAddrs
            in foldl (\<lambda>c i.
                 foldl (\<lambda>c j. if i = j then c
                               else add c [fromAddr, interAddrs ! i, interAddrs ! j, toAddr])
                   c [0..<length interAddrs])
                 c1 [0..<length interAddrs])
         else c0)"

record V3Route =
  tokens :: "string list"
  fees :: "int list"

text \<open>
  \<open>choose(depth, currentFees)\<close> with \<open>n = hops - depth\<close> hops left to give a fee to:
  the routes pushed, in order.
\<close>

fun choose_fees :: "string list \<Rightarrow> int list \<Rightarrow> nat \<Rightarrow> int list \<Rightarrow> V3Route list" where
  "choose_fees clean feeTiers 0 currentFees = [\<lparr> tokens = clean, fees = currentFees \<rparr>]"
| "choose_fees clean feeTiers (Suc n) currentFees =
     concat (map (\<lambda>f. choose_fees clean feeTiers n (currentFees @ [f])) feeTiers)"

definition addRoute ::
  "bool \<Rightarrow> number \<Rightarrow> int list \<Rightarrow> V3Route list \<Rightarrow> string list \<Rightarrow> V3Route list" where
  "addRoute allowMultiHop maxHops feeTiers routes toks =
     (let clean = uniqueAddresses toks in
        if length clean < 2 then routes
        else if \<not> allowMultiHop \<and> length clean \<noteq> 2 then routes
        else if allowMultiHop \<and> num_lt maxHops (Fin (of_nat (length clean))) then routes
        else routes @ choose_fees clean feeTiers (length clean - 1) [])"

text \<open>The route and fee combinations of the concentrated-liquidity quoter.\<close>

definition v3_routes ::
  "string \<Rightarrow> string \<Rightarrow> string list \<Rightarrow> bool \<Rightarrow> number \<Rightarrow> int list \<Rightarrow> V3Route list" where
  "v3_routes fromAddr toAddr interAddrs allowMultiHop maxHops feeTiers =
     (let add = addRoute allowMultiHop maxHops feeTiers;
          r0 = add [] [fromAddr, toAddr]
      in if allowMultiHop then
           (let r1 = foldl (\<lambda>r m. add r [fromAddr, m, toAddr]) r0 interAddrs
            in foldl (\<lambda>r i.
                 foldl (\<lambda>r j. if i = j then r
                               else add r [fromAddr, interAddrs ! i, interAddrs ! j, toAddr])
                   r [0..<length interAddrs])
                 r1 [0..<length interAddrs])
         else r0)"

section \<open>Quotes\<close>

datatype error =
    ProviderUnavailable
  | UnknownAddress
  | NoRouteV2
  | QuoterUnavailable
  | NoRouteV3
  | NoRoutePancake
  | EncodeNeedTwoTokens
  | EncodeFeesMismatch
  | RangeError

datatype provider_id = oneinch | pcs_v2 | pcs_v3

text \<open>
  The raw amounts are big integers (the source keeps their decimal strings). The
  formatted amounts and the symbols of the paths are presentation and are left out.
\<close>

record SplitQuotePart =
  part_amountInRaw :: int
  part_amountOutRaw :: int
  part_path :: "string list"

record LiveQuote =
  amountInRaw :: int
  amountOutRaw :: int
  from_address :: string
  to_address :: string
  path :: "string list option"
  v3FeesBpsPerHop :: "int list option"
  isSplit :: bool
  parts :: "SplitQuotePart list"
  provider :: "provider_id option"
  tradingFeeBpsApprox :: "nat option"

text \<open>
  The parameters of a quote. \<open>parsedAmountIn\<close> is
  \<open>ethers.parseUnits(String(amountInUnits), fromDecimals)\<close>, the requested amount in raw
  units; an optional parameter that is absent is \<open>None\<close>.
\<close>

record quote_params =
  fromSymbol :: string
  toSymbol :: string
  parsedAmountIn :: int
  allowMultiHop :: "bool option"
  allowSplitRouting :: "bool option"
  maxHops :: "number option"
  feeTiers :: "int list option"

definition Boolean :: "bool option \<Rightarrow> bool" where
  "Boolean b = (case b of None \<Rightarrow> False | Some v \<Rightarrow> v)"

text \<open>
  \<open>Array.prototype.sort\<close> is stable. With a comparator that is a consistent order its
  result is the one of stable insertion.
\<close>

fun insert_by :: "('a \<Rightarrow> 'a \<Rightarrow> int) \<Rightarrow> 'a \<Rightarrow> 'a list \<Rightarrow> 'a list" where
  "insert_by cmp x [] = [x]"
| "insert_by cmp x (y # ys) = (if cmp x y \<le> 0 then x # y # ys else y # insert_by cmp x ys)"

definition sort_by :: "('a \<Rightarrow> 'a \<Rightarrow> int) \<Rightarrow> 'a list \<Rightarrow> 'a list" where
  "sort_by cmp xs = foldr (insert_by cmp) xs []"

text \<open>\<open>(a, b) => (a.out > b.out ? -1 : (a.out < b.out ? 1 : 0))\<close>\<close>

definition cmp_out :: "int \<Rightarrow> int \<Rightarrow> int" where
  "cmp_out a b = (if a > b then - 1 else if a < b then 1 else 0)"

definition filter_Boolean :: "'a option list \<Rightarrow> 'a list" where
  "filter_Boolean rs = map the (filter (\<lambda>r. r \<noteq> None) rs)"

subsection \<open>Split search\<close>

record split_state =
  bestTotalOut :: int
  bestPercentToR1 :: nat
  bestOut1 :: int
  bestOut2 :: int

definition steps :: nat where
  "steps = 10"

text \<open>
  The loop \<open>for (let p = steps; p <= 100 - steps; p += steps)\<close> of both quoters. The two
  evaluations of a step are given as functions of the amount sent to each route.
\<close>

function split_search ::
  "(int \<Rightarrow> error + int) \<Rightarrow> (int \<Rightarrow> error + int) \<Rightarrow> int \<Rightarrow> nat \<Rightarrow> split_state
     \<Rightarrow> error + split_state" where
  "split_search ev1 ev2 inRaw p st =
     (if p \<le> 100 - steps then
        (let in1 = bigint_div (inRaw * int p) 100;
             in2 = inRaw - in1
         in case ev1 in1 of
              Inl e \<Rightarrow> Inl e
            | Inr o1 \<Rightarrow>
                (case ev2 in2 of
                   Inl e \<Rightarrow> Inl e
                 | Inr o2 \<Rightarrow>
                     split_search ev1 ev2 inRaw (p + steps)
                       (if o1 + o2 > bestTotalOut st
                        then \<lparr> bestTotalOut = o1 + o2, bestPercentToR1 = p,
                               bestOut1 = o1, bestOut2 = o2 \<rparr>
                        else st)))
      else Inr st)"
  by pat_completeness auto
termination
  by (relation "measure (\<lambda>(ev1, ev2, inRaw, p, st). 101 - p)") (auto simp: steps_def)

definition split_init :: "int \<Rightarrow> split_state" where
  "split_init out1 = \<lparr> bestTotalOut = 0, bestPercentToR1 = 100, bestOut1 = out1, bestOut2 = 0 \<rparr>"

definition split_quote ::
  "int \<Rightarrow> string \<Rightarrow> string \<Rightarrow> string list \<Rightarrow> string list \<Rightarrow> split_state \<Rightarrow> LiveQuote" where
  "split_quote inRaw fromAddr toAddr path1 path2 st =
     (let in1 = bigint_div (inRaw * int (bestPercentToR1 st)) 100;
          in2 = inRaw - in1;
          part1 = \<lparr> part_amountInRaw = in1, part_amountOutRaw = bestOut1 st, part_path = path1 \<rparr>;
          part2 = \<lparr> part_amountInRaw = in2, part_amountOutRaw = bestOut2 st, part_path = path2 \<rparr>;
          totalOut = bestOut1 st + bestOut2 st
      in \<lparr> amountInRaw = inRaw, amountOutRaw = totalOut,
           from_address = fromAddr, to_address = toAddr,
           path = None, v3FeesBpsPerHop = None,
           isSplit = True, parts = [part1, part2],
           provider = None, tradingFeeBpsApprox = None \<rparr>)"

subsection \<open>Constant-product quoter\<close>

text \<open>
  The router contract is a parameter: \<open>router inRaw path\<close> is the last of the amounts that
  \<open>getAmountsOut(inRaw, path)\<close> returns (one amount for each element of the path), and
  \<open>None\<close> when the call reverts, times out or cannot be decoded.
\<close>

type_synonym v2_router = "int \<Rightarrow> string list \<Rightarrow> nat option"

definition evaluatePathOut :: "v2_router \<Rightarrow> string list \<Rightarrow> int \<Rightarrow> int" where
  "evaluatePathOut router p inRaw = (case router inRaw p of Some out \<Rightarrow> int out | None \<Rightarrow> 0)"

definition v2_results :: "v2_router \<Rightarrow> int \<Rightarrow> string list list \<Rightarrow> (string list \<times> int) option list" where
  "v2_results router inRaw candidatePaths =
     map (\<lambda>p. let out = evaluatePathOut router p inRaw in if out = 0 then None else Some (p, out))
       candidatePaths"

definition v2_ranked :: "v2_router \<Rightarrow> int \<Rightarrow> string list list \<Rightarrow> (string list \<times> int) list" where
  "v2_ranked router inRaw candidatePaths =
     sort_by (\<lambda>a b. cmp_out (snd a) (snd b)) (filter_Boolean (v2_results router inRaw candidatePaths))"

definition v2_single_quote :: "int \<Rightarrow> string \<Rightarrow> string \<Rightarrow> string list \<times> int \<Rightarrow> LiveQuote" where
  "v2_single_quote inRaw fromAddr toAddr best =
     \<lparr> amountInRaw = inRaw, amountOutRaw = snd best,
       from_address = fromAddr, to_address = toAddr,
       path = Some (fst best), v3FeesBpsPerHop = None,
       isSplit = False, parts = [],
       provider = Some pcs_v2,
       tradingFeeBpsApprox = Some (max 25 ((length (fst best) - 1) * 25)) \<rparr>"

definition v2_select ::
  "v2_router \<Rightarrow> int \<Rightarrow> string \<Rightarrow> string \<Rightarrow> bool \<Rightarrow> (string list \<times> int) list \<Rightarrow> error + LiveQuote" where
  "v2_select router inRaw fromAddr toAddr allowSplit ranked =
     (case ranked of
        [] \<Rightarrow> Inl NoRouteV2
      | r1 # rest \<Rightarrow>
          (case rest of
             r2 # _ \<Rightarrow>
               if allowSplit then
                 (case split_search (\<lambda>a. Inr (evaluatePathOut router (fst r1) a))
                         (\<lambda>a. Inr (evaluatePathOut router (fst r2) a))
                         inRaw steps (split_init (snd r1)) of
                    Inl e \<Rightarrow> Inl e
                  | Inr st \<Rightarrow>
                      if snd r1 \<ge> bestTotalOut st
                      then Inr (v2_single_quote inRaw fromAddr toAddr r1)
                      else Inr (split_quote inRaw fromAddr toAddr (fst r1) (fst r2) st))
               else Inr (v2_single_quote inRaw fromAddr toAddr r1)
           | [] \<Rightarrow> Inr (v2_single_quote inRaw fromAddr toAddr r1)))"

text \<open>The two addresses of a request, when both symbols are known.\<close>

definition resolve_pair :: "config \<Rightarrow> quote_params \<Rightarrow> (string \<times> string) option" where
  "resolve_pair cfg ps =
     (case (getKnownTokenAddress cfg (toUpperCase (fromSymbol ps)),
            getKnownTokenAddress cfg (toUpperCase (toSymbol ps))) of
        (Some fromAddr, Some toAddr) \<Rightarrow> Some (fromAddr, toAddr)
      | _ \<Rightarrow> None)"

definition v2_candidates :: "config \<Rightarrow> quote_params \<Rightarrow> string list list" where
  "v2_candidates cfg ps =
     (case resolve_pair cfg ps of
        None \<Rightarrow> []
      | Some (fromAddr, toAddr) \<Rightarrow>
          v2_candidatePaths fromAddr toAddr
            (resolveSymbolsToAddresses cfg (getPreferredIntermediates cfg))
            (Boolean (allowMultiHop ps)) (clampMaxHops (maxHops ps)))"

definition quotePcsV2BestExactIn :: "config \<Rightarrow> v2_router \<Rightarrow> quote_params \<Rightarrow> error + LiveQuote" where
  "quotePcsV2BestExactIn cfg router ps =
     (if \<not> provider_available cfg then Inl ProviderUnavailable
      else case resolve_pair cfg ps of
             None \<Rightarrow> Inl UnknownAddress
           | Some (fromAddr, toAddr) \<Rightarrow>
               v2_select router (parsedAmountIn ps) fromAddr toAddr
                 (Boolean (allowSplitRouting ps))
                 (v2_ranked router (parsedAmountIn ps) (v2_candidates cfg ps)))"

subsection \<open>Path encoding of the concentrated-liquidity quoter\<close>

definition hex_digit :: "nat \<Rightarrow> char" where
  "hex_digit d = ''0123456789abcdef'' ! d"

fun hex_nat :: "nat \<Rightarrow> string" where
  "hex_nat n = (if n < 16 then [hex_digit n] else hex_nat (n div 16) @ [hex_digit (n mod 16)])"

declare hex_nat.simps [simp del]

text \<open>\<open>fee.toString(16)\<close> for an integral fee.\<close>

definition toString16 :: "int \<Rightarrow> string" where
  "toString16 n = (if n < 0 then CHR ''-'' # hex_nat (nat (- n)) else hex_nat (nat n))"

definition padStart :: "nat \<Rightarrow> char \<Rightarrow> string \<Rightarrow> string" where
  "padStart n c s = replicate (n - length s) c @ s"

text \<open>\<open>.replace(/^0x/, '')\<close>\<close>

definition strip0x :: "string \<Rightarrow> string" where
  "strip0x s = (if take 2 s = ''0x'' then drop 2 s else s)"

definition encodeV3Path :: "string list \<Rightarrow> int list \<Rightarrow> error + string" where
  "encodeV3Path toks fs =
     (if length toks < 2 then Inl EncodeNeedTwoTokens
      else if length fs \<noteq> length toks - 1 then Inl EncodeFeesMismatch
      else Inr (foldl
                 (\<lambda>hex i. hex @ padStart 6 (CHR ''0'') (toString16 (fs ! i))
                              @ strip0x (toLowerCase (toks ! (i + 1))))
                 (''0x'' @ strip0x (toLowerCase (toks ! 0)))
                 [0..<length fs]))"

subsection \<open>Concentrated-liquidity quoter\<close>

text \<open>
  The quoter contract is a parameter, one function for each call the source makes:
  the static and the direct call of \<open>quoteExactInput(path, amountIn)\<close>, and the static
  calls of \<open>quoteExactInputSingle\<close> with five arguments and with one struct. A reply is
  the amount out it carries; \<open>None\<close> is a call that throws, times out or carries no amount.
\<close>

record v3_quoter =
  quoteExactInput_static :: "string \<Rightarrow> int \<Rightarrow> nat option"
  quoteExactInput_direct :: "string \<Rightarrow> int \<Rightarrow> nat option"
  quoteExactInputSingle_static :: "string \<Rightarrow> string \<Rightarrow> int \<Rightarrow> int \<Rightarrow> nat option"
  quoteExactInputSingle_struct :: "string \<Rightarrow> string \<Rightarrow> int \<Rightarrow> int \<Rightarrow> nat option"

definition quoteV3ExactInput :: "v3_quoter \<Rightarrow> string \<Rightarrow> int \<Rightarrow> int" where
  "quoteV3ExactInput quoter pathBytes inRaw =
     (case quoteExactInput_static quoter pathBytes inRaw of
        Some r \<Rightarrow> int r
      | None \<Rightarrow>
          (case quoteExactInput_direct quoter pathBytes inRaw of
             Some r2 \<Rightarrow> int r2
           | None \<Rightarrow> 0))"

text \<open>The fee is \<open>r.fees[0]\<close>; without a fee both calls fail to encode their arguments.\<close>

definition quoteV3ExactInputSingle ::
  "v3_quoter \<Rightarrow> string \<Rightarrow> string \<Rightarrow> int option \<Rightarrow> int \<Rightarrow> int" where
  "quoteV3ExactInputSingle quoter tokenIn tokenOut fee inRaw =
     (case fee of
        None \<Rightarrow> 0
      | Some f \<Rightarrow>
          (case quoteExactInputSingle_static quoter tokenIn tokenOut f inRaw of
             Some r1 \<Rightarrow> int r1
           | None \<Rightarrow>
               (case quoteExactInputSingle_struct quoter tokenIn tokenOut f inRaw of
                  Some r2 \<Rightarrow> int r2
                | None \<Rightarrow> 0)))"

definition first_fee :: "int list \<Rightarrow> int option" where
  "first_fee fs = (case fs of [] \<Rightarrow> None | f # _ \<Rightarrow> Some f)"

definition evalRoute :: "v3_quoter \<Rightarrow> int \<Rightarrow> V3Route \<Rightarrow> error + int" where
  "evalRoute quoter inRaw r =
     (if length (tokens r) = 2 then
        (let single = quoteV3ExactInputSingle quoter (tokens r ! 0) (tokens r ! 1)
                        (first_fee (fees r)) inRaw
         in case encodeV3Path (tokens r) (fees r) of
              Inl e \<Rightarrow> Inl e
            | Inr pathBytes \<Rightarrow>
                (let multi = quoteV3ExactInput quoter pathBytes inRaw
                 in Inr (if multi > 0 then multi else single)))
      else
        (case encodeV3Path (tokens r) (fees r) of
           Inl e \<Rightarrow> Inl e
         | Inr pathBytes \<Rightarrow> Inr (quoteV3ExactInput quoter pathBytes inRaw)))"

definition v3_outputs :: "v3_quoter \<Rightarrow> int \<Rightarrow> V3Route list \<Rightarrow> (V3Route \<times> int) option list" where
  "v3_outputs quoter inRaw routes =
     map (\<lambda>r. case evalRoute quoter inRaw r of
                Inl e \<Rightarrow> None
              | Inr out \<Rightarrow> if out > 0 then Some (r, out) else None)
       routes"

definition v3_ranked :: "v3_quoter \<Rightarrow> int \<Rightarrow> V3Route list \<Rightarrow> (V3Route \<times> int) list" where
  "v3_ranked quoter inRaw routes =
     sort_by (\<lambda>a b. cmp_out (snd a) (snd b)) (filter_Boolean (v3_outputs quoter inRaw routes))"

text \<open>One evaluation of the split search: the single-hop call alone for a route of two tokens.\<close>

definition v3_split_eval :: "v3_quoter \<Rightarrow> V3Route \<Rightarrow> int \<Rightarrow> error + int" where
  "v3_split_eval quoter r a =
     (if length (tokens r) = 2 then
        Inr (quoteV3ExactInputSingle quoter (tokens r ! 0) (tokens r ! 1) (first_fee (fees r)) a)
      else
        (case encodeV3Path (tokens r) (fees r) of
           Inl e \<Rightarrow> Inl e
         | Inr pathBytes \<Rightarrow> Inr (quoteV3ExactInput quoter pathBytes a)))"

definition v3_single_quote :: "int \<Rightarrow> string \<Rightarrow> string \<Rightarrow> V3Route \<times> int \<Rightarrow> LiveQuote" where
  "v3_single_quote inRaw fromAddr toAddr best =
     \<lparr> amountInRaw = inRaw, amountOutRaw = snd best,
       from_address = fromAddr, to_address = toAddr,
       path = Some (tokens (fst best)), v3FeesBpsPerHop = Some (fees (fst best)),
       isSplit = False, parts = [],
       provider = None, tradingFeeBpsApprox = None \<rparr>"

definition v3_select ::
  "v3_quoter \<Rightarrow> int \<Rightarrow> string \<Rightarrow> string \<Rightarrow> bool \<Rightarrow> (V3Route \<times> int) list \<Rightarrow> error + LiveQuote" where
  "v3_select quoter inRaw fromAddr toAddr allowSplit ranked =
     (case ranked of
        [] \<Rightarrow> Inl NoRouteV3
      | x # rest \<Rightarrow>
          (case rest of
             y # _ \<Rightarrow>
               if allowSplit then
                 (case split_search (v3_split_eval quoter (fst x)) (v3_split_eval quoter (fst y))
                         inRaw steps (split_init (snd x)) of
                    Inl e \<Rightarrow> Inl e
                  | Inr st \<Rightarrow>
                      if snd x \<ge> bestTotalOut st
                      then Inr (v3_single_quote inRaw fromAddr toAddr x)
                      else Inr (split_quote inRaw fromAddr toAddr
                                  (tokens (fst x)) (tokens (fst y)) st))
               else Inr (v3_single_quote inRaw fromAddr toAddr x)
           | [] \<Rightarrow> Inr (v3_single_quote inRaw fromAddr toAddr x)))"

text \<open>
  \<open>(params.feeTiers && params.feeTiers.length ? params.feeTiers : DEFAULT_V3_FEE_TIERS).slice(0, 6)\<close>
\<close>

definition v3_feeTiers :: "config \<Rightarrow> quote_params \<Rightarrow> int list" where
  "v3_feeTiers cfg ps =
     take 6 (case feeTiers ps of
               Some fs \<Rightarrow> if fs \<noteq> [] then fs else DEFAULT_V3_FEE_TIERS cfg
             | None \<Rightarrow> DEFAULT_V3_FEE_TIERS cfg)"

definition v3_candidates :: "config \<Rightarrow> quote_params \<Rightarrow> V3Route list" where
  "v3_candidates cfg ps =
     (case resolve_pair cfg ps of
        None \<Rightarrow> []
      | Some (fromAddr, toAddr) \<Rightarrow>
          v3_routes fromAddr toAddr
            (resolveSymbolsToAddresses cfg (getPreferredIntermediates cfg))
            (Boolean (allowMultiHop ps)) (clampMaxHops (maxHops ps)) (v3_feeTiers cfg ps))"

definition quotePcsV3BestExactIn :: "config \<Rightarrow> v3_quoter \<Rightarrow> quote_params \<Rightarrow> error + LiveQuote" where
  "quotePcsV3BestExactIn cfg quoter ps =
     (if \<not> provider_available cfg then Inl ProviderUnavailable
      else if \<not> v3_quoter_available cfg then Inl QuoterUnavailable
      else case resolve_pair cfg ps of
             None \<Rightarrow> Inl UnknownAddress
           | Some (fromAddr, toAddr) \<Rightarrow>
               v3_select quoter (parsedAmountIn ps) fromAddr toAddr
                 (Boolean (allowSplitRouting ps))
                 (v3_ranked quoter (parsedAmountIn ps) (v3_candidates cfg ps)))"

subsection \<open>Best of both venue families\<close>

text \<open>
  \<open>Promise.allSettled\<close> settles both quotes whatever the other does. The parameters of
  \<open>quotePancakeBest\<close> have no \<open>allowSplitRouting\<close>: the constant-product quote is asked
  with \<open>false\<close>, the concentrated-liquidity quote without it.
\<close>

definition pancake_multiHop :: "quote_params \<Rightarrow> bool option" where
  "pancake_multiHop ps = Some (case allowMultiHop ps of None \<Rightarrow> True | Some b \<Rightarrow> b)"

definition pancake_q2 :: "config \<Rightarrow> v2_router \<Rightarrow> quote_params \<Rightarrow> error + LiveQuote" where
  "pancake_q2 cfg router ps =
     quotePcsV2BestExactIn cfg router
       (ps \<lparr> allowMultiHop := pancake_multiHop ps, allowSplitRouting := Some False \<rparr>)"

definition pancake_q3 :: "config \<Rightarrow> v3_quoter \<Rightarrow> quote_params \<Rightarrow> error + LiveQuote" where
  "pancake_q3 cfg quoter ps =
     quotePcsV3BestExactIn cfg quoter
       (ps \<lparr> allowMultiHop := pancake_multiHop ps, allowSplitRouting := None \<rparr>)"

definition quotePancakeBest ::
  "config \<Rightarrow> v2_router \<Rightarrow> v3_quoter \<Rightarrow> quote_params \<Rightarrow> error + LiveQuote" where
  "quotePancakeBest cfg router quoter ps =
     (case (pancake_q2 cfg router ps, pancake_q3 cfg quoter ps) of
        (Inl e2, Inl e3) \<Rightarrow> Inl NoRoutePancake
      | (Inr ok2, Inl e3) \<Rightarrow> Inr (ok2 \<lparr> provider := Some pcs_v2 \<rparr>)
      | (Inl e2, Inr ok3) \<Rightarrow> Inr (ok3 \<lparr> provider := Some pcs_v3 \<rparr>)
      | (Inr ok2, Inr ok3) \<Rightarrow>
          (let a2 = amountOutRaw ok2; a3 = amountOutRaw ok3
           in if a3 > a2 then Inr (ok3 \<lparr> provider := Some pcs_v3 \<rparr>)
              else Inr (ok2 \<lparr> provider := Some pcs_v2 \<rparr>)))"

subsection \<open>Amounts and percentages of the split search\<close>

text \<open>
  The amounts sent to the first and to the second route at the percentage \<open>p\<close>
  (\<open>in1 = (amountInRaw * BigInt(p)) / 100n\<close> and \<open>in2 = amountInRaw - in1\<close>), and the
  percentages that the loop visits from \<open>p\<close> on.
\<close>

definition split_in1 :: "int \<Rightarrow> nat \<Rightarrow> int" where
  "split_in1 inRaw p = bigint_div (inRaw * int p) 100"

definition split_in2 :: "int \<Rightarrow> nat \<Rightarrow> int" where
  "split_in2 inRaw p = inRaw - split_in1 inRaw p"

definition grid_from :: "nat \<Rightarrow> nat set" where
  "grid_from p = {q. \<exists>k. q = p + 10 * k \<and> q \<le> 90}"

text \<open>
  The combined output of two routes at the percentage \<open>p\<close>, for each quoter; for the
  concentrated-liquidity quoter it is \<open>None\<close> if an evaluation raises.
\<close>

definition v2_split_total :: "v2_router \<Rightarrow> string list \<Rightarrow> string list \<Rightarrow> int \<Rightarrow> nat \<Rightarrow> int" where
  "v2_split_total router p1 p2 inRaw p =
     evaluatePathOut router p1 (split_in1 inRaw p) + evaluatePathOut router p2 (split_in2 inRaw p)"

definition v3_split_total :: "v3_quoter \<Rightarrow> V3Route \<Rightarrow> V3Route \<Rightarrow> int \<Rightarrow> nat \<Rightarrow> int option" where
  "v3_split_total quoter x y inRaw p =
     (case (v3_split_eval quoter x (split_in1 inRaw p), v3_split_eval quoter y (split_in2 inRaw p)) of
        (Inr o1, Inr o2) \<Rightarrow> Some (o1 + o2)
      | _ \<Rightarrow> None)"

text \<open>The output of a route as the ranking sees it: zero when the evaluation raises.\<close>

definition v3_out :: "v3_quoter \<Rightarrow> int \<Rightarrow> V3Route \<Rightarrow> int" where
  "v3_out quoter inRaw r = (case evalRoute quoter inRaw r of Inl e \<Rightarrow> 0 | Inr out \<Rightarrow> out)"

subsection \<open>Decoding an encoded path\<close>

text \<open>One hop of the encoded path: the fee on six hexadecimal digits, then the address.\<close>

definition encode_hop :: "int \<Rightarrow> string \<Rightarrow> string" where
  "encode_hop f t = padStart 6 (CHR ''0'') (toString16 f) @ strip0x (toLowerCase t)"

text \<open>
  Modelled from the spec: the decoder of the path format
  \<open>asset0 | fee0 | asset1 | fee1 | asset2 | ...\<close> (addresses of 20 bytes, fees of 3 bytes),
  of which the source has the encoder only. It reads the hexadecimal string that the
  encoder writes and returns the addresses, each with its \<open>0x\<close> prefix, and the fees.
\<close>

definition hex_value :: "char \<Rightarrow> nat option" where
  "hex_value c =
     (let n = (of_char c :: int) in
        if 48 \<le> n \<and> n \<le> 57 then Some (nat (n - 48))
        else if 97 \<le> n \<and> n \<le> 102 then Some (nat (n - 87))
        else if 65 \<le> n \<and> n \<le> 70 then Some (nat (n - 55))
        else None)"

fun parse_hex :: "nat \<Rightarrow> string \<Rightarrow> nat option" where
  "parse_hex acc [] = Some acc"
| "parse_hex acc (c # cs) =
     (case hex_value c of None \<Rightarrow> None | Some v \<Rightarrow> parse_hex (16 * acc + v) cs)"

fun decode_hops :: "nat \<Rightarrow> string \<Rightarrow> (int list \<times> string list) option" where
  "decode_hops 0 s = (if s = [] then Some ([], []) else None)"
| "decode_hops (Suc n) s =
     (if length s < 46 then None
      else case parse_hex 0 (take 6 s) of
             None \<Rightarrow> None
           | Some fee \<Rightarrow>
               (case decode_hops n (drop 46 s) of
                  None \<Rightarrow> None
                | Some (fs, ts) \<Rightarrow> Some (int fee # fs, (''0x'' @ take 40 (drop 6 s)) # ts)))"

text \<open>
  Modelled from the spec: \<open>decode\<close>, the inverse that the specification asks of the
  encoder. The first address takes forty digits after \<open>0x\<close>; each hop takes six digits
  for the fee and forty for the address.
\<close>

definition decodeV3Path :: "string \<Rightarrow> (string list \<times> int list) option" where
  "decodeV3Path hex =
     (if take 2 hex = ''0x'' \<and> 42 \<le> length hex then
        (case decode_hops ((length hex - 42) div 46) (drop 42 hex) of
           None \<Rightarrow> None
         | Some (fs, ts) \<Rightarrow> Some ((''0x'' @ take 40 (drop 2 hex)) # ts, fs))
      else None)"

section \<open>Slippage tolerance\<close>

text \<open>
  A number is a double. The result of a division or of a product is the double nearest to
  the exact result, a tie going to the even significand (53 bits; below \<open>2^-1022\<close> the
  doubles are the multiples of \<open>2^-1074\<close>), and an infinity when the rounded magnitude
  reaches \<open>2^1024\<close>.
\<close>

definition pow2 :: "int \<Rightarrow> rat" where
  "pow2 e = (if 0 \<le> e then 2 ^ nat e else 1 / 2 ^ nat (- e))"















section \<open>A concrete request\<close>

definition example_config :: config where
  "example_config = default_config \<lparr> quote_intermediates := Some [''usdt''] \<rparr>"

definition example_router :: v2_router where
  "example_router inRaw p =
     (if inRaw < 0 then None
      else if length p = 2 then Some (nat (min inRaw 600))
      else Some (nat (min inRaw 350)))"

definition example_params :: quote_params where
  "example_params =
     \<lparr> fromSymbol = ''busd'', toSymbol = ''CAKE'', parsedAmountIn = 1005,
       allowMultiHop = Some True, allowSplitRouting = Some True,
       maxHops = None, feeTiers = None \<rparr>"

definition example_quoter :: v3_quoter where
  "example_quoter =
     \<lparr> quoteExactInput_static = (\<lambda>pathBytes inRaw. None),
       quoteExactInput_direct = (\<lambda>pathBytes inRaw. None),
       quoteExactInputSingle_static = (\<lambda>tokenIn tokenOut fee inRaw.
          if inRaw < 0 \<or> fee = 10000 then None
          else if fee = 500 then Some (nat (min inRaw 600))
          else if fee = 2500 then Some (nat (min inRaw 350))
          else Some (nat (min inRaw 300))),
       quoteExactInputSingle_struct = (\<lambda>tokenIn tokenOut fee inRaw. None) \<rparr>"

definition example_params_v3 :: quote_params where
  "example_params_v3 = example_params \<lparr> allowMultiHop := None \<rparr>"

definition example_v2_path1 :: "string list" where
  "example_v2_path1 =
     [''0xe9e7CEA3DedcA5984780Bafc599bD69ADd087D56'',
      ''0x0E09Fabb73Bd3Ade0a17ECC321fD13a19e81cE82'']"

definition example_v2_path2 :: "string list" where
  "example_v2_path2 =
     [''0xe9e7CEA3DedcA5984780Bafc599bD69ADd087D56'',
      ''0x55d398326f99059fF775485246999027B3197955'',
      ''0x0E09Fabb73Bd3Ade0a17ECC321fD13a19e81cE82'']"

definition example_split_result :: "string list \<Rightarrow> LiveQuote" where
  "example_split_result path2 =
     \<lparr> amountInRaw = 1005, amountOutRaw = 950,
       from_address = ''0xe9e7CEA3DedcA5984780Bafc599bD69ADd087D56'',
       to_address = ''0x0E09Fabb73Bd3Ade0a17ECC321fD13a19e81cE82'',
       path = None, v3FeesBpsPerHop = None, isSplit = True,
       parts =
         [\<lparr> part_amountInRaw = 603, part_amountOutRaw = 600, part_path = example_v2_path1 \<rparr>,
          \<lparr> part_amountInRaw = 402, part_amountOutRaw = 350, part_path = path2 \<rparr>],
       provider = None, tradingFeeBpsApprox = None \<rparr>"

definition example_v3_route :: "int \<Rightarrow> V3Route" where
  "example_v3_route fee = \<lparr> tokens = example_v2_path1, fees = [fee] \<rparr>"

text \<open>A router and a quoter whose every call fails, and a router that answers every call alike.\<close>

definition failing_router :: v2_router where
  "failing_router inRaw p = None"

definition failing_quoter :: v3_quoter where
  "failing_quoter =
     \<lparr> quoteExactInput_static = (\<lambda>pathBytes inRaw. None),
       quoteExactInput_direct = (\<lambda>pathBytes inRaw. None),
       quoteExactInputSingle_static = (\<lambda>tokenIn tokenOut fee inRaw. None),
       quoteExactInputSingle_struct = (\<lambda>tokenIn tokenOut fee inRaw. None) \<rparr>"

definition tie_router :: v2_router where
  "tie_router inRaw p = Some 5"




text \<open>
  An environment whose \<open>SERVER_QUOTE_INTERMEDIATES\<close> is \<open>USDC,BUSD\<close>, and a multi-hop request
  from BUSD to USDT in it, with the two paths that it enumerates.
\<close>

definition intermediates_config :: config where
  "intermediates_config =
     \<lparr> DEFAULT_WBNB = ''0xBB4CdB9CBd36B01bD1cBaEBF2De08d9173bc095c'',
       addr_env = (\<lambda>_. None),
       quote_intermediates = Some [''USDC'', ''BUSD''],
       DEFAULT_V3_FEE_TIERS = [100, 500, 2500, 10000],
       provider_available = True,
       v3_quoter_available = True \<rparr>"

definition busd_usdt_params :: quote_params where
  "busd_usdt_params =
     \<lparr> fromSymbol = ''BUSD'', toSymbol = ''USDT'', parsedAmountIn = 1000,
       allowMultiHop = Some True, allowSplitRouting = None,
       maxHops = None, feeTiers = None \<rparr>"

definition path_BUSD_USDT :: "string list" where
  "path_BUSD_USDT =
     [''0xe9e7CEA3DedcA5984780Bafc599bD69ADd087D56'',
      ''0x55d398326f99059fF775485246999027B3197955'']"

definition path_BUSD_USDC_USDT :: "string list" where
  "path_BUSD_USDC_USDT =
     [''0xe9e7CEA3DedcA5984780Bafc599bD69ADd087D56'',
      ''0x8ac76a51cc950d9822d68b83fe1ad97b32cd580d'',
      ''0x55d398326f99059fF775485246999027B3197955'']"

text \<open>A router that answers as \<open>example_router\<close> for the amount 1005 and fails otherwise.\<close>

definition example_router_1005 :: v2_router where
  "example_router_1005 inRaw p = (if inRaw = 1005 then example_router inRaw p else None)"

definition example_quoter_1005 :: v3_quoter where
  "example_quoter_1005 =
     example_quoter \<lparr> quoteExactInputSingle_static := (\<lambda>tokenIn tokenOut fee inRaw.
        if inRaw = 1005 then quoteExactInputSingle_static example_quoter tokenIn tokenOut fee inRaw
        else None) \<rparr>"

text \<open>The same request without intermediate assets, and the single quotes it yields.\<close>

definition example_params_direct :: quote_params where
  "example_params_direct = example_params \<lparr> allowMultiHop := Some False \<rparr>"

definition example_v2_single :: "int \<Rightarrow> LiveQuote" where
  "example_v2_single out =
     v2_single_quote 1005 ''0xe9e7CEA3DedcA5984780Bafc599bD69ADd087D56''
       ''0x0E09Fabb73Bd3Ade0a17ECC321fD13a19e81cE82'' (example_v2_path1, out)"

definition example_v3_single :: LiveQuote where
  "example_v3_single =
     v3_single_quote 1005 ''0xe9e7CEA3DedcA5984780Bafc599bD69ADd087D56''
       ''0x0E09Fabb73Bd3Ade0a17ECC321fD13a19e81cE82'' (example_v3_route 500, 600)"

text \<open>A request between two symbols of the same asset.\<close>

definition bnb_params :: quote_params where
  "bnb_params =
     \<lparr> fromSymbol = ''BNB'', toSymbol = ''WBNB'', parsedAmountIn = 1000,
       allowMultiHop = None, allowSplitRouting = None,
       maxHops = None, feeTiers = None \<rparr>"

text \<open>Addresses of the token table, one of them also in lowercase.\<close>

definition USDT_address :: string where
  "USDT_address = ''0x55d398326f99059fF775485246999027B3197955''"

definition USDT_lowercase :: string where
  "USDT_lowercase = ''0x55d398326f99059ff775485246999027b3197955''"

definition USDC_address :: string where
  "USDC_address = ''0x8ac76a51cc950d9822d68b83fe1ad97b32cd580d''"


section \<open>Properties of the split search\<close>

lemma grid_from_step: "p \<le> 90 \<Longrightarrow> grid_from p = insert p (grid_from (p + 10))"
proof (intro set_eqI iffI)
  fix q assume "p \<le> 90" "q \<in> grid_from p"
  then obtain k where k: "q = p + 10 * k" "q \<le> 90" by (auto simp: grid_from_def)
  show "q \<in> insert p (grid_from (p + 10))"
  proof (cases k)
    case 0 with k show ?thesis by simp
  next
    case (Suc k')
    with k have "q = (p + 10) + 10 * k'" by simp
    with k show ?thesis unfolding grid_from_def by blast
  qed
next
  fix q assume p: "p \<le> 90" and "q \<in> insert p (grid_from (p + 10))"
  then consider "q = p" | k where "q = (p + 10) + 10 * k" "q \<le> 90"
    by (auto simp: grid_from_def)
  then show "q \<in> grid_from p"
  proof cases
    case 1
    then have "q = p + 10 * 0" by simp
    with p 1 show ?thesis unfolding grid_from_def by blast
  next
    case 2
    then have "q = p + 10 * Suc k" by simp
    with 2 show ?thesis unfolding grid_from_def by blast
  qed
qed



lemma split_search_spec:
  "split_search ev1 ev2 inRaw p st = Inr st' \<Longrightarrow>
     bestTotalOut st \<le> bestTotalOut st' \<and>
     (\<forall>q \<in> grid_from p. \<exists>o1 o2. ev1 (split_in1 inRaw q) = Inr o1 \<and> ev2 (split_in2 inRaw q) = Inr o2
          \<and> o1 + o2 \<le> bestTotalOut st') \<and>
     (st' = st \<or>
      (bestPercentToR1 st' \<in> grid_from p \<and>
       ev1 (split_in1 inRaw (bestPercentToR1 st')) = Inr (bestOut1 st') \<and>
       ev2 (split_in2 inRaw (bestPercentToR1 st')) = Inr (bestOut2 st') \<and>
       bestTotalOut st' = bestOut1 st' + bestOut2 st'))"
proof (induction ev1 ev2 inRaw p st arbitrary: st' rule: split_search.induct)
  case (1 ev1 ev2 inRaw p st)
  show ?case
  proof (cases "p \<le> 100 - steps")
    case False
    then have "grid_from p = {}" by (auto simp: grid_from_def steps_def)
    with False "1.prems" show ?thesis by simp
  next
    case True
    then have p90: "p \<le> 90" by (simp add: steps_def)
    from True "1.prems" obtain o1 where e1: "ev1 (split_in1 inRaw p) = Inr o1"
      by (cases "ev1 (split_in1 inRaw p)") (auto simp: split_in1_def Let_def)
    from True "1.prems" e1 obtain o2 where e2: "ev2 (split_in2 inRaw p) = Inr o2"
      by (cases "ev2 (split_in2 inRaw p)") (auto simp: split_in1_def split_in2_def Let_def)
    define st1 where "st1 = (if o1 + o2 > bestTotalOut st
                        then \<lparr> bestTotalOut = o1 + o2, bestPercentToR1 = p,
                               bestOut1 = o1, bestOut2 = o2 \<rparr>
                        else st)"
    from True "1.prems" e1 e2 have rec: "split_search ev1 ev2 inRaw (p + steps) st1 = Inr st'"
      by (simp add: split_in1_def split_in2_def Let_def st1_def)
    have IH: "bestTotalOut st1 \<le> bestTotalOut st' \<and>
     (\<forall>q \<in> grid_from (p + steps). \<exists>o1 o2. ev1 (split_in1 inRaw q) = Inr o1 \<and> ev2 (split_in2 inRaw q) = Inr o2
          \<and> o1 + o2 \<le> bestTotalOut st') \<and>
     (st' = st1 \<or>
      (bestPercentToR1 st' \<in> grid_from (p + steps) \<and>
       ev1 (split_in1 inRaw (bestPercentToR1 st')) = Inr (bestOut1 st') \<and>
       ev2 (split_in2 inRaw (bestPercentToR1 st')) = Inr (bestOut2 st') \<and>
       bestTotalOut st' = bestOut1 st' + bestOut2 st'))"
      using "1.IH"[OF True _ _ e1[unfolded split_in1_def] _ rec[unfolded st1_def]] e2
      by (simp add: split_in1_def split_in2_def st1_def)
    have g: "grid_from p = insert p (grid_from (p + steps))"
      using grid_from_step[OF p90] by (simp add: steps_def)
    have le1: "bestTotalOut st \<le> bestTotalOut st1" "o1 + o2 \<le> bestTotalOut st1"
      by (auto simp: st1_def)
    have pin: "p \<in> grid_from p" using p90 grid_from_step by blast
    show ?thesis
    proof (intro conjI)
      show "bestTotalOut st \<le> bestTotalOut st'" using le1 IH by linarith
      show "\<forall>q\<in>grid_from p. \<exists>o1 o2. ev1 (split_in1 inRaw q) = Inr o1 \<and> ev2 (split_in2 inRaw q) = Inr o2 \<and> o1 + o2 \<le> bestTotalOut st'"
        using IH e1 e2 le1 unfolding g by auto
      show "st' = st \<or>
      (bestPercentToR1 st' \<in> grid_from p \<and>
       ev1 (split_in1 inRaw (bestPercentToR1 st')) = Inr (bestOut1 st') \<and>
       ev2 (split_in2 inRaw (bestPercentToR1 st')) = Inr (bestOut2 st') \<and>
       bestTotalOut st' = bestOut1 st' + bestOut2 st')"
        using IH e1 e2 pin unfolding g by (auto simp: st1_def split: if_splits)
    qed
  qed
qed

lemma split_search_error:
  "split_search ev1 ev2 inRaw p st = Inl e \<Longrightarrow> \<exists>a. ev1 a = Inl e \<or> ev2 a = Inl e"
proof (induction ev1 ev2 inRaw p st rule: split_search.induct)
  case (1 ev1 ev2 inRaw p st)
  show ?case
  proof (cases "p \<le> 100 - steps")
    case False
    with "1.prems" show ?thesis by simp
  next
    case True
    show ?thesis
    proof (cases "ev1 (bigint_div (inRaw * int p) 100)")
      case (Inl a)
      with True "1.prems" show ?thesis by (auto simp: Let_def)
    next
      case (Inr o1)
      note r1 = this
      show ?thesis
      proof (cases "ev2 (inRaw - bigint_div (inRaw * int p) 100)")
        case (Inl a)
        with True r1 "1.prems" show ?thesis by (auto simp: Let_def)
      next
        case (Inr o2)
        with True r1 "1.prems" "1.IH"[OF True _ _ r1 Inr] show ?thesis by (simp add: Let_def)
      qed
    qed
  qed
qed

section \<open>Properties of the ranking\<close>

lemma insert_by_cmp_out:
  "insert_by (\<lambda>a b. cmp_out (k a) (k b)) x ys = insort_key (\<lambda>r. - k r) x ys"
  by (induction ys) (auto simp: cmp_out_def)

lemma sort_by_cmp_out:
  "sort_by (\<lambda>a b. cmp_out (k a) (k b)) xs = sort_key (\<lambda>r. - k r) xs"
  by (induction xs) (simp_all add: sort_by_def sort_key_def insert_by_cmp_out)

lemma sort_by_sorted:
  "sorted_wrt (\<lambda>a b. k a \<ge> k b) (sort_by (\<lambda>a b. cmp_out (k a) (k b)) xs)"
proof -
  have "sorted (map (\<lambda>r. - k r) (sort_key (\<lambda>r. - k r) xs))" by (rule sorted_sort_key)
  then show ?thesis
    by (simp add: sort_by_cmp_out sorted_wrt_map sorted_wrt_iff_nth_less)
qed

lemma sort_by_stable:
  "filter (\<lambda>r. k r = v) (sort_by (\<lambda>a b. cmp_out (k a) (k b)) xs) = filter (\<lambda>r. k r = v) xs"
proof -
  have "filter (\<lambda>r. - k r = - v) (sort_key (\<lambda>r. - k r) xs) = filter (\<lambda>r. - k r = - v) xs"
    by (rule sort_key_stable)
  then show ?thesis by (simp add: sort_by_cmp_out)
qed

lemma sort_by_set: "set (sort_by (\<lambda>a b. cmp_out (k a) (k b)) xs) = set xs"
  by (simp add: sort_by_cmp_out)

lemma sort_by_length: "length (sort_by (\<lambda>a b. cmp_out (k a) (k b)) xs) = length xs"
  by (simp add: sort_by_cmp_out)


lemma filter_Boolean_set: "set (filter_Boolean rs) = {x. Some x \<in> set rs}"
  by (induction rs) (auto simp: filter_Boolean_def)

lemma v2_viable_set:
  "set (filter_Boolean (v2_results router inRaw cs)) =
     {(c, evaluatePathOut router c inRaw) | c. c \<in> set cs \<and> evaluatePathOut router c inRaw \<noteq> 0}"
  by (auto simp: filter_Boolean_set v2_results_def Let_def split: if_splits)

lemma v2_ranked_set:
  "set (v2_ranked router inRaw cs) =
     {(c, evaluatePathOut router c inRaw) | c. c \<in> set cs \<and> evaluatePathOut router c inRaw \<noteq> 0}"
  by (simp add: v2_ranked_def sort_by_set v2_viable_set)

lemma evaluatePathOut_nonneg: "0 \<le> evaluatePathOut router c a"
  by (simp add: evaluatePathOut_def split: option.splits)

lemma v2_ranked_pos: "r \<in> set (v2_ranked router inRaw cs) \<Longrightarrow> 0 < snd r"
  using evaluatePathOut_nonneg[of router _ inRaw]
  by (auto simp: v2_ranked_set order_less_le)


section \<open>Properties of the selection\<close>

lemma v2_split_search_total:
  "\<exists>st. split_search (\<lambda>a. Inr (evaluatePathOut router p1 a)) (\<lambda>a. Inr (evaluatePathOut router p2 a))
           inRaw p st0 = Inr st"
proof (cases "split_search (\<lambda>a. Inr (evaluatePathOut router p1 a)) (\<lambda>a. Inr (evaluatePathOut router p2 a)) inRaw p st0")
  case (Inl e)
  from split_search_error[OF this] show ?thesis by auto
next
  case (Inr st)
  then show ?thesis by blast
qed

lemma split_quote_fields:
  "isSplit (split_quote inRaw f t p1 p2 st)"
  "amountOutRaw (split_quote inRaw f t p1 p2 st) = bestOut1 st + bestOut2 st"
  "amountInRaw (split_quote inRaw f t p1 p2 st) = inRaw"
  "\<exists>a b. parts (split_quote inRaw f t p1 p2 st) = [a, b] \<and>
         part_amountInRaw a = split_in1 inRaw (bestPercentToR1 st) \<and>
         part_amountInRaw b = split_in2 inRaw (bestPercentToR1 st) \<and>
         part_amountInRaw a + part_amountInRaw b = inRaw"
  by (simp_all add: split_quote_def Let_def split_in1_def split_in2_def)

lemma v2_single_quote_fields:
  "\<not> isSplit (v2_single_quote inRaw f t r)"
  "amountOutRaw (v2_single_quote inRaw f t r) = snd r"
  by (simp_all add: v2_single_quote_def)

lemma v3_single_quote_fields:
  "\<not> isSplit (v3_single_quote inRaw f t r)"
  "amountOutRaw (v3_single_quote inRaw f t r) = snd r"
  by (simp_all add: v3_single_quote_def)

text \<open>What the selection with a split search returns, for any two evaluations.\<close>

lemma split_decision_all:
  assumes s: "split_search ev1 ev2 inRaw steps (split_init out1) = Inr st"
  shows "\<forall>p \<in> grid_from 10. \<exists>o1 o2. ev1 (split_in1 inRaw p) = Inr o1 \<and> ev2 (split_in2 inRaw p) = Inr o2
            \<and> o1 + o2 \<le> bestTotalOut st"
  using split_search_spec[OF s[unfolded steps_def]] by blast

lemma split_decision_best:
  assumes s: "split_search ev1 ev2 inRaw steps (split_init out1) = Inr st"
    and pos: "0 \<le> out1" and lt: "out1 < bestTotalOut st"
  shows "bestTotalOut st = bestOut1 st + bestOut2 st \<and> bestPercentToR1 st \<in> grid_from 10 \<and>
           ev1 (split_in1 inRaw (bestPercentToR1 st)) = Inr (bestOut1 st) \<and>
           ev2 (split_in2 inRaw (bestPercentToR1 st)) = Inr (bestOut2 st)"
proof -
  have "st \<noteq> split_init out1" using lt pos by (auto simp: split_init_def)
  with split_search_spec[OF s[unfolded steps_def]] show ?thesis by blast
qed

lemma v2_select_split:
  assumes sel: "v2_select router inRaw f t True (r1 # r2 # rest) = Inr q" and pos: "0 \<le> snd r1"
  shows "snd r1 \<le> amountOutRaw q
    \<and> (isSplit q \<longrightarrow> snd r1 < amountOutRaw q
           \<and> (\<exists>p \<in> grid_from 10. amountOutRaw q = v2_split_total router (fst r1) (fst r2) inRaw p)
           \<and> (\<forall>p \<in> grid_from 10. v2_split_total router (fst r1) (fst r2) inRaw p \<le> amountOutRaw q))
    \<and> (\<not> isSplit q \<longrightarrow> amountOutRaw q = snd r1
           \<and> (\<forall>p \<in> grid_from 10. v2_split_total router (fst r1) (fst r2) inRaw p \<le> snd r1))"
proof -
  let ?ev1 = "\<lambda>a. Inr (evaluatePathOut router (fst r1) a) :: error + int"
  let ?ev2 = "\<lambda>a. Inr (evaluatePathOut router (fst r2) a) :: error + int"
  obtain st where st: "split_search ?ev1 ?ev2 inRaw steps (split_init (snd r1)) = Inr st"
    using v2_split_search_total by blast
  have all: "\<forall>p \<in> grid_from 10. v2_split_total router (fst r1) (fst r2) inRaw p \<le> bestTotalOut st"
    using split_decision_all[OF st] by (auto simp: v2_split_total_def)
  show ?thesis
  proof (cases "snd r1 \<ge> bestTotalOut st")
    case True
    with sel st have q: "q = v2_single_quote inRaw f t r1" by (simp add: v2_select_def)
    show ?thesis using all True by (auto simp: q v2_single_quote_fields)
  next
    case False
    with sel st have q: "q = split_quote inRaw f t (fst r1) (fst r2) st" by (simp add: v2_select_def)
    from False have lt: "snd r1 < bestTotalOut st" by simp
    note d = split_decision_best[OF st pos lt]
    have out: "amountOutRaw q = bestTotalOut st" using d by (simp add: q split_quote_fields)
    have "amountOutRaw q = v2_split_total router (fst r1) (fst r2) inRaw (bestPercentToR1 st)"
      using d out by (simp add: v2_split_total_def)
    with d have ex: "\<exists>p \<in> grid_from 10. amountOutRaw q = v2_split_total router (fst r1) (fst r2) inRaw p"
      by blast
    have sp: "isSplit q" by (simp add: q split_quote_fields)
    show ?thesis using lt out ex all sp by simp
  qed
qed

lemma v3_select_split:
  assumes sel: "v3_select quoter inRaw f t True (x # y # rest) = Inr q" and pos: "0 \<le> snd x"
  shows "snd x \<le> amountOutRaw q
    \<and> (isSplit q \<longrightarrow> snd x < amountOutRaw q
           \<and> (\<exists>p \<in> grid_from 10. v3_split_total quoter (fst x) (fst y) inRaw p = Some (amountOutRaw q))
           \<and> (\<forall>p \<in> grid_from 10. \<exists>v. v3_split_total quoter (fst x) (fst y) inRaw p = Some v
                  \<and> v \<le> amountOutRaw q))
    \<and> (\<not> isSplit q \<longrightarrow> amountOutRaw q = snd x
           \<and> (\<forall>p \<in> grid_from 10. \<exists>v. v3_split_total quoter (fst x) (fst y) inRaw p = Some v
                  \<and> v \<le> snd x))"
proof -
  let ?ev1 = "v3_split_eval quoter (fst x)"
  let ?ev2 = "v3_split_eval quoter (fst y)"
  obtain st where st: "split_search ?ev1 ?ev2 inRaw steps (split_init (snd x)) = Inr st"
    using sel by (cases "split_search ?ev1 ?ev2 inRaw steps (split_init (snd x))")
      (auto simp: v3_select_def)
  have all: "\<forall>p \<in> grid_from 10. \<exists>v. v3_split_total quoter (fst x) (fst y) inRaw p = Some v
                \<and> v \<le> bestTotalOut st"
    using split_decision_all[OF st] by (fastforce simp: v3_split_total_def)
  show ?thesis
  proof (cases "snd x \<ge> bestTotalOut st")
    case True
    with sel st have q: "q = v3_single_quote inRaw f t x" by (simp add: v3_select_def)
    show ?thesis using all True by (fastforce simp: q v3_single_quote_fields)
  next
    case False
    with sel st have q: "q = split_quote inRaw f t (tokens (fst x)) (tokens (fst y)) st"
      by (simp add: v3_select_def)
    from False have lt: "snd x < bestTotalOut st" by simp
    note d = split_decision_best[OF st pos lt]
    have out: "amountOutRaw q = bestTotalOut st" using d by (simp add: q split_quote_fields)
    have "v3_split_total quoter (fst x) (fst y) inRaw (bestPercentToR1 st) = Some (amountOutRaw q)"
      using d out by (simp add: v3_split_total_def)
    with d have ex: "\<exists>p \<in> grid_from 10. v3_split_total quoter (fst x) (fst y) inRaw p = Some (amountOutRaw q)"
      by blast
    have sp: "isSplit q" by (simp add: q split_quote_fields)
    show ?thesis using lt out ex all sp by simp
  qed
qed

lemma quoteV3ExactInput_nonneg: "0 \<le> quoteV3ExactInput quoter pb a"
  by (simp add: quoteV3ExactInput_def split: option.splits)

lemma quoteV3ExactInputSingle_nonneg: "0 \<le> quoteV3ExactInputSingle quoter ti to fee a"
  by (simp add: quoteV3ExactInputSingle_def split: option.splits)

lemma v3_out_nonneg: "0 \<le> v3_out quoter inRaw r"
  using quoteV3ExactInput_nonneg quoteV3ExactInputSingle_nonneg
  by (auto simp: v3_out_def evalRoute_def Let_def split: sum.splits if_splits)

lemma v2_viable_eq:
  "filter_Boolean (v2_results router inRaw cs) =
     filter (\<lambda>r. snd r \<noteq> 0) (map (\<lambda>c. (c, evaluatePathOut router c inRaw)) cs)"
  by (induction cs) (simp_all add: filter_Boolean_def v2_results_def Let_def)

lemma v3_viable_eq:
  "filter_Boolean (v3_outputs quoter inRaw rs) =
     filter (\<lambda>r. snd r \<noteq> 0) (map (\<lambda>r. (r, v3_out quoter inRaw r)) rs)"
proof (induction rs)
  case Nil
  show ?case by (simp add: filter_Boolean_def v3_outputs_def)
next
  case (Cons r rs)
  have "0 \<le> v3_out quoter inRaw r" by (rule v3_out_nonneg)
  with Cons show ?case
    by (cases "evalRoute quoter inRaw r") (auto simp: filter_Boolean_def v3_outputs_def v3_out_def)
qed

lemma v3_ranked_set:
  "set (v3_ranked quoter inRaw rs) =
     {(r, v3_out quoter inRaw r) | r. r \<in> set rs \<and> v3_out quoter inRaw r \<noteq> 0}"
  by (auto simp: v3_ranked_def sort_by_set v3_viable_eq)

lemma v3_ranked_pos: "r \<in> set (v3_ranked quoter inRaw rs) \<Longrightarrow> 0 < snd r"
  using v3_out_nonneg[of quoter inRaw] by (auto simp: v3_ranked_set order_less_le)


lemma v2_select_single:
  "\<not> allowSplit \<or> rest = [] \<Longrightarrow>
     v2_select router inRaw f t allowSplit (r1 # rest) = Inr (v2_single_quote inRaw f t r1)"
  by (auto simp: v2_select_def split: list.splits)

lemma v3_select_single:
  "\<not> allowSplit \<or> rest = [] \<Longrightarrow>
     v3_select quoter inRaw f t allowSplit (x # rest) = Inr (v3_single_quote inRaw f t x)"
  by (auto simp: v3_select_def split: list.splits)

lemma v2_select_out:
  assumes "v2_select router inRaw f t allowSplit (r1 # rest) = Inr q" and "0 \<le> snd r1"
  shows "snd r1 \<le> amountOutRaw q"
proof (cases "\<not> allowSplit \<or> rest = []")
  case True
  from v2_select_single[OF this, of router inRaw f t r1] assms(1)
  have "q = v2_single_quote inRaw f t r1" by simp
  then show ?thesis by (simp add: v2_single_quote_fields)
next
  case False
  then obtain r2 rest' where "rest = r2 # rest'" "allowSplit" by (cases rest) auto
  with assms v2_select_split[of router inRaw f t r1 r2 rest' q] show ?thesis by simp
qed

lemma v3_select_out:
  assumes "v3_select quoter inRaw f t allowSplit (x # rest) = Inr q" and "0 \<le> snd x"
  shows "snd x \<le> amountOutRaw q"
proof (cases "\<not> allowSplit \<or> rest = []")
  case True
  from v3_select_single[OF this, of quoter inRaw f t x] assms(1)
  have "q = v3_single_quote inRaw f t x" by simp
  then show ?thesis by (simp add: v3_single_quote_fields)
next
  case False
  then obtain y rest' where "rest = y # rest'" "allowSplit" by (cases rest) auto
  with assms v3_select_split[of quoter inRaw f t x y rest' q] show ?thesis by simp
qed

lemma v2_select_error:
  "v2_select router inRaw f t allowSplit ranked = Inl e \<Longrightarrow> ranked = [] \<and> e = NoRouteV2"
proof (cases ranked)
  case Nil
  assume "v2_select router inRaw f t allowSplit ranked = Inl e"
  with Nil show ?thesis by (simp add: v2_select_def)
next
  case (Cons r1 rest)
  assume a: "v2_select router inRaw f t allowSplit ranked = Inl e"
  show ?thesis
  proof (cases "\<not> allowSplit \<or> rest = []")
    case True
    from v2_select_single[OF this] a Cons show ?thesis by simp
  next
    case False
    then obtain r2 rest' where r: "rest = r2 # rest'" "allowSplit" by (cases rest) auto
    obtain st where "split_search (\<lambda>a. Inr (evaluatePathOut router (fst r1) a))
        (\<lambda>a. Inr (evaluatePathOut router (fst r2) a)) inRaw steps (split_init (snd r1)) = Inr st"
      using v2_split_search_total by blast
    with a Cons r show ?thesis by (simp add: v2_select_def split: if_splits)
  qed
qed

lemma v3_split_eval_error:
  "v3_split_eval quoter r a = Inl e \<Longrightarrow> e = EncodeNeedTwoTokens \<or> e = EncodeFeesMismatch"
  by (auto simp: v3_split_eval_def encodeV3Path_def split: if_splits sum.splits)

lemma v3_select_error:
  assumes "v3_select quoter inRaw f t allowSplit ranked = Inl NoRouteV3"
  shows "ranked = []"
proof (cases ranked)
  case Nil
  then show ?thesis .
next
  case (Cons x rest)
  show ?thesis
  proof (cases "\<not> allowSplit \<or> rest = []")
    case True
    from v3_select_single[OF this] assms Cons show ?thesis by simp
  next
    case False
    then obtain y rest' where r: "rest = y # rest'" "allowSplit" by (cases rest) auto
    show ?thesis
    proof (cases "split_search (v3_split_eval quoter (fst x)) (v3_split_eval quoter (fst y))
                         inRaw steps (split_init (snd x))")
      case (Inl e)
      with assms Cons r have "e = NoRouteV3" by (simp add: v3_select_def)
      with split_search_error[OF Inl] v3_split_eval_error show ?thesis by blast
    next
      case (Inr st)
      with assms Cons r show ?thesis by (simp add: v3_select_def split: if_splits)
    qed
  qed
qed

lemma quotePcsV2_Inr:
  "quotePcsV2BestExactIn cfg router ps = Inr q \<Longrightarrow>
     \<exists>f t. v2_select router (parsedAmountIn ps) f t (Boolean (allowSplitRouting ps))
              (v2_ranked router (parsedAmountIn ps) (v2_candidates cfg ps)) = Inr q"
  by (auto simp: quotePcsV2BestExactIn_def split: if_splits option.splits)

lemma quotePcsV3_Inr:
  "quotePcsV3BestExactIn cfg quoter ps = Inr q \<Longrightarrow>
     \<exists>f t. v3_select quoter (parsedAmountIn ps) f t (Boolean (allowSplitRouting ps))
              (v3_ranked quoter (parsedAmountIn ps) (v3_candidates cfg ps)) = Inr q"
  by (auto simp: quotePcsV3BestExactIn_def split: if_splits option.splits)

lemma v2_select_isSplit:
  assumes "v2_select router inRaw f t allowSplit ranked = Inr q" and "isSplit q"
  shows "\<exists>p1 p2 st. q = split_quote inRaw f t p1 p2 st"
  using assms
  by (auto simp: v2_select_def v2_single_quote_fields split: list.splits if_splits sum.splits)

lemma v3_select_isSplit:
  assumes "v3_select quoter inRaw f t allowSplit ranked = Inr q" and "isSplit q"
  shows "\<exists>p1 p2 st. q = split_quote inRaw f t p1 p2 st"
  using assms
  by (auto simp: v3_select_def v3_single_quote_fields split: list.splits if_splits sum.splits)

lemma split_quote_parts_sum:
  assumes "q = split_quote inRaw f t p1 p2 st"
  shows "\<exists>a b. parts q = [a, b] \<and> part_amountInRaw a + part_amountInRaw b = inRaw
           \<and> amountInRaw q = inRaw"
  using split_quote_fields(4)[of inRaw f t p1 p2 st] by (auto simp: assms split_quote_fields(3))

section \<open>Properties of the path enumeration\<close>

lemma uniq_after_index:
  "map (\<lambda>i. (p # xs) ! Suc i)
     (filter (\<lambda>i. toLowerCase ((p # xs) ! Suc i) \<noteq> toLowerCase ((p # xs) ! i)) [0..<length xs])
   = uniq_after p xs"
proof (induction xs arbitrary: p)
  case Nil
  show ?case by simp
next
  case (Cons a as)
  have u: "[0..<length (a # as)] = 0 # map Suc [0..<length as]"
    by (simp add: upt_conv_Cons map_Suc_upt del: upt_Suc)
  show ?case
    unfolding u using Cons.IH[of a]
    by (simp add: filter_map comp_def del: upt_Suc)
qed

lemma uniqueAddresses_Cons: "uniqueAddresses (a # as) = a # uniq_after a as"
proof -
  have u: "[0..<length (a # as)] = 0 # map Suc [0..<length as]"
    by (simp add: upt_conv_Cons map_Suc_upt del: upt_Suc)
  show ?thesis
    unfolding uniqueAddresses_def u using uniq_after_index[of a as]
    by (simp add: filter_map comp_def del: upt_Suc)
qed




lemma foldl_invariant:
  assumes "I c0" and "\<And>c x. I c \<Longrightarrow> I (f c x)"
  shows "I (foldl f c0 xs)"
  using assms(1) by (induction xs arbitrary: c0) (simp_all add: assms(2))

text \<open>The enumeration under an invariant of the list that every addition keeps.\<close>

lemma enumeration_invariant:
  assumes add: "\<And>c raw. I c \<Longrightarrow> I (add c raw)" and c0: "I (add [] [f, t])"
  shows "I (if amh then
               foldl (\<lambda>c i.
                   foldl (\<lambda>c j. if i = j then c else add c [f, ia ! i, ia ! j, t])
                     c [0..<length ia])
                 (foldl (\<lambda>c m. add c [f, m, t]) (add [] [f, t]) ia) [0..<length ia]
             else add [] [f, t])"
proof -
  have c1: "I (foldl (\<lambda>c m. add c [f, m, t]) (add [] [f, t]) ia)"
    by (rule foldl_invariant[where I = I, OF c0]) (rule add)
  have inner: "I (foldl (\<lambda>c j. if i = j then c else add c [f, ia ! i, ia ! j, t]) c js)"
    if "I c" for c i js
    by (rule foldl_invariant[where I = I, OF that]) (simp add: add)
  have c2: "I (foldl (\<lambda>c i.
                       foldl (\<lambda>c j. if i = j then c else add c [f, ia ! i, ia ! j, t])
                         c [0..<length ia])
                       (foldl (\<lambda>c m. add c [f, m, t]) (add [] [f, t]) ia) [0..<length ia])"
    by (rule foldl_invariant[where I = I, OF c1]) (rule inner)
  from c0 c2 show ?thesis by simp
qed






section \<open>Properties of the path encoding\<close>

lemma toLowerCase_length [simp]: "length (toLowerCase s) = length s"
  by (simp add: toLowerCase_def)

lemma toLowerCase_append: "toLowerCase (xs @ ys) = toLowerCase xs @ toLowerCase ys"
  by (simp add: toLowerCase_def)

lemma toLowerCase_0x: "toLowerCase ''0x'' = ''0x''"
  by (simp add: toLowerCase_def toLowerChar_def)

lemma is_address_split: "is_address t \<Longrightarrow> t = ''0x'' @ drop 2 t \<and> length (drop 2 t) = 40"
proof -
  assume a: "is_address t"
  then have "take 2 t = ''0x''" "length t = 42" by (simp_all add: is_address_def)
  then show ?thesis using append_take_drop_id[of 2 t] by simp
qed

lemma address_hex:
  assumes "is_address t"
  shows "strip0x (toLowerCase t) = toLowerCase (drop 2 t)"
    and "length (strip0x (toLowerCase t)) = 40"
    and "''0x'' @ strip0x (toLowerCase t) = toLowerCase t"
proof -
  from is_address_split[OF assms] obtain b where t: "t = ''0x'' @ b" and b: "length b = 40"
    by blast
  have l: "toLowerCase t = ''0x'' @ toLowerCase b"
    unfolding t toLowerCase_append toLowerCase_0x ..
  show "strip0x (toLowerCase t) = toLowerCase (drop 2 t)"
    unfolding l by (simp add: strip0x_def t)
  show "length (strip0x (toLowerCase t)) = 40"
    unfolding l by (simp add: strip0x_def b)
  show "''0x'' @ strip0x (toLowerCase t) = toLowerCase t"
    unfolding l by (simp add: strip0x_def)
qed

lemma hex_value_digit_all: "list_all (\<lambda>d. hex_value (hex_digit d) = Some d) [0..<16]"
  by code_simp

lemma hex_value_digit: "d < 16 \<Longrightarrow> hex_value (hex_digit d) = Some d"
  using hex_value_digit_all by (simp add: list_all_iff)

lemma parse_hex_append:
  "parse_hex acc (xs @ ys) = (case parse_hex acc xs of None \<Rightarrow> None | Some a \<Rightarrow> parse_hex a ys)"
  by (induction xs arbitrary: acc) (auto split: option.splits)

lemma parse_hex_hex_nat: "parse_hex 0 (hex_nat n) = Some n"
proof (induction n rule: hex_nat.induct)
  case (1 n)
  show ?case
  proof (cases "n < 16")
    case True
    then show ?thesis by (subst hex_nat.simps) (simp add: hex_value_digit)
  next
    case False
    have "parse_hex 0 (hex_nat n) = parse_hex 0 (hex_nat (n div 16) @ [hex_digit (n mod 16)])"
      using False by (subst hex_nat.simps) simp
    also have "\<dots> = parse_hex (n div 16) [hex_digit (n mod 16)]"
      using "1.IH"[OF False] by (simp add: parse_hex_append)
    also have "\<dots> = Some (16 * (n div 16) + n mod 16)"
      by (simp add: hex_value_digit)
    finally show ?thesis by simp
  qed
qed

lemma parse_hex_zeros: "parse_hex 0 (replicate k (CHR ''0'') @ s) = parse_hex 0 s"
  by (induction k) (simp_all add: hex_value_def)

lemma length_hex_nat: "n < 16 ^ k \<Longrightarrow> 0 < k \<Longrightarrow> length (hex_nat n) \<le> k"
proof (induction n arbitrary: k rule: hex_nat.induct)
  case (1 n)
  show ?case
  proof (cases "n < 16")
    case True
    with "1.prems" show ?thesis by (subst hex_nat.simps) simp
  next
    case False
    from "1.prems" obtain k' where k: "k = Suc k'" by (cases k) auto
    with "1.prems" have "n < 16 * 16 ^ k'" by simp
    then have d: "n div 16 < 16 ^ k'" by (simp add: less_mult_imp_div_less mult.commute)
    have "0 < k'" using False k "1.prems" by (cases k') auto
    from "1.IH"[OF False d this] have "length (hex_nat (n div 16)) \<le> k'" .
    then show ?thesis using False k by (subst hex_nat.simps) simp
  qed
qed

lemma fee_hex:
  assumes "0 \<le> f" and "f < 16777216"
  shows "length (padStart 6 (CHR ''0'') (toString16 f)) = 6"
    and "parse_hex 0 (padStart 6 (CHR ''0'') (toString16 f)) = Some (nat f)"
proof -
  have t: "toString16 f = hex_nat (nat f)" using assms by (simp add: toString16_def)
  have "nat f < 16 ^ 6" using assms by simp
  then have l: "length (hex_nat (nat f)) \<le> 6" by (rule length_hex_nat) simp
  show "length (padStart 6 (CHR ''0'') (toString16 f)) = 6"
    using l by (simp add: padStart_def t)
  show "parse_hex 0 (padStart 6 (CHR ''0'') (toString16 f)) = Some (nat f)"
    by (simp add: padStart_def t parse_hex_zeros parse_hex_hex_nat)
qed

lemma foldl_append_concat: "foldl (\<lambda>hex i. hex @ g i) init is = init @ concat (map g is)"
  by (induction "is" arbitrary: init) simp_all

lemma encodeV3Path_concat:
  assumes "2 \<le> length toks" and "length fs = length toks - 1"
  shows "encodeV3Path toks fs
           = Inr (''0x'' @ strip0x (toLowerCase (hd toks))
                    @ concat (map (\<lambda>(f, t). encode_hop f t) (zip fs (tl toks))))"
proof -
  have "map (\<lambda>i. encode_hop (fs ! i) (toks ! (i + 1))) [0..<length fs]
          = map (\<lambda>(f, t). encode_hop f t) (zip fs (tl toks))"
    using assms by (intro nth_equalityI) (simp_all add: nth_tl)
  moreover have "toks ! 0 = hd toks" using assms by (cases toks) simp_all
  ultimately show ?thesis
    using assms by (simp add: encodeV3Path_def foldl_append_concat encode_hop_def)
qed

lemma encode_hop_length:
  assumes "0 \<le> f" "f < 16777216" "is_address t"
  shows "length (encode_hop f t) = 46"
  using fee_hex(1)[OF assms(1,2)] address_hex(2)[OF assms(3)] by (simp add: encode_hop_def)

lemma hops_length:
  assumes "\<forall>(f, t) \<in> set hops. 0 \<le> f \<and> f < 16777216 \<and> is_address t"
  shows "length (concat (map (\<lambda>(f, t). encode_hop f t) hops)) = 46 * length hops"
  using assms by (induction hops) (auto simp: encode_hop_length)

lemma decode_hops_concat:
  assumes "\<forall>(f, t) \<in> set hops. 0 \<le> f \<and> f < 16777216 \<and> is_address t"
  shows "decode_hops (length hops) (concat (map (\<lambda>(f, t). encode_hop f t) hops))
           = Some (map fst hops, map (\<lambda>(f, t). toLowerCase t) hops)"
  using assms
proof (induction hops)
  case Nil
  show ?case by simp
next
  case (Cons h hops)
  obtain f t where h: "h = (f, t)" by (cases h)
  from Cons.prems h have v: "0 \<le> f" "f < 16777216" "is_address t" by auto
  let ?fee = "padStart 6 (CHR ''0'') (toString16 f)"
  let ?tok = "strip0x (toLowerCase t)"
  let ?rest = "concat (map (\<lambda>(f, t). encode_hop f t) hops)"
  have lf: "length ?fee = 6" by (rule fee_hex(1)[OF v(1,2)])
  have lt: "length ?tok = 40" by (rule address_hex(2)[OF v(3)])
  have s: "concat (map (\<lambda>(f, t). encode_hop f t) (h # hops)) = ?fee @ ?tok @ ?rest"
    by (simp add: h encode_hop_def)
  have ih: "decode_hops (length hops) ?rest
              = Some (map fst hops, map (\<lambda>(f, t). toLowerCase t) hops)"
    using Cons by simp
  have "decode_hops (length (h # hops)) (?fee @ ?tok @ ?rest)
          = Some (int (nat f) # map fst hops,
                  (''0x'' @ ?tok) # map (\<lambda>(f, t). toLowerCase t) hops)"
    using lf lt ih fee_hex(2)[OF v(1,2)] by simp
  then show ?case
    unfolding s using v address_hex(3)[OF v(3)] by (simp add: h)
qed

lemma decodeV3Path_encoded:
  assumes tok: "is_address t0"
    and hops: "\<forall>(f, t) \<in> set hops. 0 \<le> f \<and> f < 16777216 \<and> is_address t"
  shows "decodeV3Path (''0x'' @ strip0x (toLowerCase t0)
                         @ concat (map (\<lambda>(f, t). encode_hop f t) hops))
           = Some (toLowerCase t0 # map (\<lambda>(f, t). toLowerCase t) hops, map fst hops)"
proof -
  let ?tok = "strip0x (toLowerCase t0)"
  let ?rest = "concat (map (\<lambda>(f, t). encode_hop f t) hops)"
  have lt: "length ?tok = 40" by (rule address_hex(2)[OF tok])
  have lr: "length ?rest = 46 * length hops" by (rule hops_length[OF hops])
  have d: "decode_hops (length hops) ?rest
             = Some (map fst hops, map (\<lambda>(f, t). toLowerCase t) hops)"
    by (rule decode_hops_concat[OF hops])
  have n: "(length (''0x'' @ ?tok @ ?rest) - 42) div 46 = length hops"
    using lt lr by simp
  have dr: "drop 42 (''0x'' @ ?tok @ ?rest) = ?rest" using lt by simp
  have tk: "take 40 (drop 2 (''0x'' @ ?tok @ ?rest)) = ?tok" using lt by simp
  have ge: "42 \<le> length (''0x'' @ ?tok @ ?rest)" using lt by simp
  have "decodeV3Path (''0x'' @ ?tok @ ?rest)
          = Some ((''0x'' @ ?tok) # map (\<lambda>(f, t). toLowerCase t) hops, map fst hops)"
    unfolding decodeV3Path_def n dr tk using ge d by simp
  then show ?thesis using address_hex(3)[OF tok] by simp
qed

section \<open>Properties of double rounding and of the slippage factor\<close>

lemma pow2_powi: "pow2 e = 2 powi e"
  by (simp add: pow2_def power_int_def inverse_eq_divide power_one_over)

lemma pow2_pos [simp]: "0 < pow2 e"
  by (simp add: pow2_powi)













section \<open>The concrete request, evaluated\<close>


lemma example_v2_quote:
  "quotePcsV2BestExactIn example_config example_router example_params
     = Inr (example_split_result example_v2_path2)"
  by code_simp


lemma example_v3_quote:
  "quotePcsV3BestExactIn example_config example_quoter example_params_v3
     = Inr (example_split_result example_v2_path1)"
  by code_simp


section \<open>Split quotes\<close>



text \<open>
  C6. The two parts of every split quote of either quoter carry amounts in whose sum is
  exactly the requested raw amount in.
\<close>

theorem split_parts_sum_to_requested_amount:
  "(quotePcsV2BestExactIn cfg router ps = Inr q \<and> isSplit q \<longrightarrow>
      (\<exists>a b. parts q = [a, b] \<and> part_amountInRaw a + part_amountInRaw b = parsedAmountIn ps
             \<and> amountInRaw q = parsedAmountIn ps))
   \<and> (quotePcsV3BestExactIn cfg quoter ps' = Inr q' \<and> isSplit q' \<longrightarrow>
      (\<exists>a b. parts q' = [a, b] \<and> part_amountInRaw a + part_amountInRaw b = parsedAmountIn ps'
             \<and> amountInRaw q' = parsedAmountIn ps'))"
proof (intro conjI impI)
  assume a: "quotePcsV2BestExactIn cfg router ps = Inr q \<and> isSplit q"
  then obtain f t where "v2_select router (parsedAmountIn ps) f t (Boolean (allowSplitRouting ps))
              (v2_ranked router (parsedAmountIn ps) (v2_candidates cfg ps)) = Inr q"
    using quotePcsV2_Inr by blast
  from v2_select_isSplit[OF this] a obtain p1 p2 st
    where "q = split_quote (parsedAmountIn ps) f t p1 p2 st" by blast
  then show "\<exists>a b. parts q = [a, b] \<and> part_amountInRaw a + part_amountInRaw b = parsedAmountIn ps
             \<and> amountInRaw q = parsedAmountIn ps"
    by (rule split_quote_parts_sum)
next
  assume a: "quotePcsV3BestExactIn cfg quoter ps' = Inr q' \<and> isSplit q'"
  then obtain f t where "v3_select quoter (parsedAmountIn ps') f t (Boolean (allowSplitRouting ps'))
              (v3_ranked quoter (parsedAmountIn ps') (v3_candidates cfg ps')) = Inr q'"
    using quotePcsV3_Inr by blast
  from v3_select_isSplit[OF this] a obtain p1 p2 st
    where "q' = split_quote (parsedAmountIn ps') f t p1 p2 st" by blast
  then show "\<exists>a b. parts q' = [a, b] \<and> part_amountInRaw a + part_amountInRaw b = parsedAmountIn ps'
             \<and> amountInRaw q' = parsedAmountIn ps'"
    by (rule split_quote_parts_sum)
qed

theorem split_parts_sum_to_requested_amount_witness:
  "quotePcsV2BestExactIn example_config example_router example_params
      = Inr (example_split_result example_v2_path2)
   \<and> quotePcsV3BestExactIn example_config example_quoter example_params_v3
      = Inr (example_split_result example_v2_path1)
   \<and> map part_amountInRaw (parts (example_split_result example_v2_path2)) = [603, 402]
   \<and> sum_list (map part_amountInRaw (parts (example_split_result example_v2_path2))) = 1005
   \<and> sum_list (map part_amountInRaw (parts (example_split_result example_v2_path1))) = 1005"
proof -
  have s: "isSplit (example_split_result example_v2_path2)"
    "isSplit (example_split_result example_v2_path1)"
    by (simp_all add: example_split_result_def)
  have p: "parsedAmountIn example_params = 1005" "parsedAmountIn example_params_v3 = 1005"
    by (simp_all add: example_params_def example_params_v3_def)
  from split_parts_sum_to_requested_amount[of example_config example_router example_params
      "example_split_result example_v2_path2" example_quoter example_params_v3
      "example_split_result example_v2_path1"]
    example_v2_quote example_v3_quote s p
  have "(\<exists>a b. parts (example_split_result example_v2_path2) = [a, b]
            \<and> part_amountInRaw a + part_amountInRaw b = 1005)
      \<and> (\<exists>a b. parts (example_split_result example_v2_path1) = [a, b]
            \<and> part_amountInRaw a + part_amountInRaw b = 1005)"
    by auto
  then have "sum_list (map part_amountInRaw (parts (example_split_result example_v2_path2))) = 1005"
    "sum_list (map part_amountInRaw (parts (example_split_result example_v2_path1))) = 1005"
    by auto
  moreover have "map part_amountInRaw (parts (example_split_result example_v2_path2)) = [603, 402]"
    by (simp add: example_split_result_def)
  ultimately show ?thesis using example_v2_quote example_v3_quote by simp
qed

section \<open>Ranking and absence of a route\<close>

lemma example_resolve_pair:
  "resolve_pair example_config example_params
     = Some (''0xe9e7CEA3DedcA5984780Bafc599bD69ADd087D56'', ''0x0E09Fabb73Bd3Ade0a17ECC321fD13a19e81cE82'')"
  by code_simp

lemma example_resolve_pair_v3:
  "resolve_pair example_config example_params_v3
     = Some (''0xe9e7CEA3DedcA5984780Bafc599bD69ADd087D56'', ''0x0E09Fabb73Bd3Ade0a17ECC321fD13a19e81cE82'')"
  by code_simp

lemma example_available: "provider_available example_config" "v3_quoter_available example_config"
  by (simp_all add: example_config_def default_config_def)


lemma busd_usdt_candidates:
  "v2_candidates intermediates_config busd_usdt_params
     = [path_BUSD_USDT, path_BUSD_USDC_USDT, path_BUSD_USDT, path_BUSD_USDC_USDT]"
  by code_simp

lemma busd_usdt_ranked:
  "v2_ranked tie_router (parsedAmountIn busd_usdt_params)
       (v2_candidates intermediates_config busd_usdt_params)
     = [(path_BUSD_USDT, 5), (path_BUSD_USDC_USDT, 5), (path_BUSD_USDT, 5),
        (path_BUSD_USDC_USDT, 5)]"
  unfolding busd_usdt_candidates by code_simp

lemma failing_router_out: "evaluatePathOut failing_router c a = 0"
  by (simp add: evaluatePathOut_def failing_router_def)

lemma failing_quoter_out: "v3_out failing_quoter a r = 0"
  by (simp add: v3_out_def evalRoute_def quoteV3ExactInput_def quoteV3ExactInputSingle_def
      failing_quoter_def Let_def split: sum.splits option.splits)

lemma v2_ranked_mset:
  "mset (v2_ranked router inRaw cs)
     = mset (filter (\<lambda>r. snd r \<noteq> 0) (map (\<lambda>c. (c, evaluatePathOut router c inRaw)) cs))"
  by (simp add: v2_ranked_def sort_by_cmp_out v2_viable_eq)

lemma v3_ranked_mset:
  "mset (v3_ranked quoter inRaw rs)
     = mset (filter (\<lambda>r. snd r \<noteq> 0) (map (\<lambda>r. (r, v3_out quoter inRaw r)) rs))"
  by (simp add: v3_ranked_def sort_by_cmp_out v3_viable_eq)

lemma v2_ranked_Nil_iff:
  "v2_ranked router inRaw cs = [] \<longleftrightarrow> (\<forall>c \<in> set cs. evaluatePathOut router c inRaw = 0)"
proof -
  have "v2_ranked router inRaw cs = [] \<longleftrightarrow> set (v2_ranked router inRaw cs) = {}" by simp
  also have "\<dots> \<longleftrightarrow> (\<forall>c \<in> set cs. evaluatePathOut router c inRaw = 0)"
    unfolding v2_ranked_set by blast
  finally show ?thesis .
qed

lemma v3_ranked_Nil_iff:
  "v3_ranked quoter inRaw rs = [] \<longleftrightarrow> (\<forall>r \<in> set rs. v3_out quoter inRaw r = 0)"
proof -
  have "v3_ranked quoter inRaw rs = [] \<longleftrightarrow> set (v3_ranked quoter inRaw rs) = {}" by simp
  also have "\<dots> \<longleftrightarrow> (\<forall>r \<in> set rs. v3_out quoter inRaw r = 0)"
    unfolding v3_ranked_set by blast
  finally show ?thesis .
qed

lemma quotePcsV2_NoRoute_iff:
  "quotePcsV2BestExactIn cfg router ps = Inl NoRouteV2 \<longleftrightarrow>
     provider_available cfg \<and> resolve_pair cfg ps \<noteq> None \<and>
     (\<forall>c \<in> set (v2_candidates cfg ps). evaluatePathOut router c (parsedAmountIn ps) = 0)"
proof (cases "provider_available cfg \<and> resolve_pair cfg ps \<noteq> None")
  case False
  then show ?thesis by (auto simp: quotePcsV2BestExactIn_def split: option.splits)
next
  case True
  then obtain f t where r: "resolve_pair cfg ps = Some (f, t)" by auto
  let ?ranked = "v2_ranked router (parsedAmountIn ps) (v2_candidates cfg ps)"
  have q: "quotePcsV2BestExactIn cfg router ps
             = v2_select router (parsedAmountIn ps) f t (Boolean (allowSplitRouting ps)) ?ranked"
    using True r by (simp add: quotePcsV2BestExactIn_def)
  have "v2_select router (parsedAmountIn ps) f t (Boolean (allowSplitRouting ps)) ?ranked
          = Inl NoRouteV2 \<longleftrightarrow> ?ranked = []"
    using v2_select_error[of router "parsedAmountIn ps" f t "Boolean (allowSplitRouting ps)" ?ranked NoRouteV2]
    by (auto simp: v2_select_def)
  with q True show ?thesis by (simp add: v2_ranked_Nil_iff)
qed

lemma quotePcsV3_NoRoute_iff:
  "quotePcsV3BestExactIn cfg quoter ps = Inl NoRouteV3 \<longleftrightarrow>
     provider_available cfg \<and> v3_quoter_available cfg \<and> resolve_pair cfg ps \<noteq> None \<and>
     (\<forall>r \<in> set (v3_candidates cfg ps). v3_out quoter (parsedAmountIn ps) r = 0)"
proof (cases "provider_available cfg \<and> v3_quoter_available cfg \<and> resolve_pair cfg ps \<noteq> None")
  case False
  then show ?thesis by (auto simp: quotePcsV3BestExactIn_def split: option.splits)
next
  case True
  then obtain f t where r: "resolve_pair cfg ps = Some (f, t)" by auto
  let ?ranked = "v3_ranked quoter (parsedAmountIn ps) (v3_candidates cfg ps)"
  have q: "quotePcsV3BestExactIn cfg quoter ps
             = v3_select quoter (parsedAmountIn ps) f t (Boolean (allowSplitRouting ps)) ?ranked"
    using True r by (simp add: quotePcsV3BestExactIn_def)
  have "v3_select quoter (parsedAmountIn ps) f t (Boolean (allowSplitRouting ps)) ?ranked
          = Inl NoRouteV3 \<longleftrightarrow> ?ranked = []"
    using v3_select_error[of quoter "parsedAmountIn ps" f t "Boolean (allowSplitRouting ps)" ?ranked]
    by (auto simp: v3_select_def)
  with q True show ?thesis by (simp add: v3_ranked_Nil_iff)
qed

lemma quotePcsV2_positive:
  assumes "quotePcsV2BestExactIn cfg router ps = Inr q"
  shows "0 < amountOutRaw q"
proof -
  let ?ranked = "v2_ranked router (parsedAmountIn ps) (v2_candidates cfg ps)"
  from quotePcsV2_Inr[OF assms] obtain f t
    where sel: "v2_select router (parsedAmountIn ps) f t (Boolean (allowSplitRouting ps)) ?ranked = Inr q"
    by blast
  then obtain r1 rest where rk: "?ranked = r1 # rest"
    by (cases ?ranked) (auto simp: v2_select_def)
  then have "r1 \<in> set ?ranked" by simp
  then have pos: "0 < snd r1" by (rule v2_ranked_pos)
  from sel rk have "snd r1 \<le> amountOutRaw q" using v2_select_out[of router _ f t _ r1 rest q] pos
    by simp
  with pos show ?thesis by simp
qed

lemma quotePcsV3_positive:
  assumes "quotePcsV3BestExactIn cfg quoter ps = Inr q"
  shows "0 < amountOutRaw q"
proof -
  let ?ranked = "v3_ranked quoter (parsedAmountIn ps) (v3_candidates cfg ps)"
  from quotePcsV3_Inr[OF assms] obtain f t
    where sel: "v3_select quoter (parsedAmountIn ps) f t (Boolean (allowSplitRouting ps)) ?ranked = Inr q"
    by blast
  then obtain x rest where rk: "?ranked = x # rest"
    by (cases ?ranked) (auto simp: v3_select_def)
  then have "x \<in> set ?ranked" by simp
  then have pos: "0 < snd x" by (rule v3_ranked_pos)
  from sel rk have "snd x \<le> amountOutRaw q" using v3_select_out[of quoter _ f t _ x rest q] pos
    by simp
  with pos show ?thesis by simp
qed

text \<open>
  C2. The ranked list of either quoter holds exactly the candidates whose evaluation
  succeeds with a non-zero output (a failed evaluation counts as zero). Either quoter
  reports that no route was found exactly when, the provider (and the quoter contract)
  being available and both symbols known, every candidate evaluates to zero; a quote that
  is returned has a positive raw output.
\<close>

theorem zero_output_candidates_are_excluded:
  "mset (v2_ranked router inRaw cs)
     = mset (filter (\<lambda>r. snd r \<noteq> 0) (map (\<lambda>c. (c, evaluatePathOut router c inRaw)) cs))
   \<and> (quotePcsV2BestExactIn cfg router ps = Inl NoRouteV2 \<longleftrightarrow>
        provider_available cfg \<and> resolve_pair cfg ps \<noteq> None \<and>
        (\<forall>c \<in> set (v2_candidates cfg ps). evaluatePathOut router c (parsedAmountIn ps) = 0))
   \<and> (quotePcsV2BestExactIn cfg router ps = Inr q \<longrightarrow> 0 < amountOutRaw q)
   \<and> mset (v3_ranked quoter inRaw rs)
     = mset (filter (\<lambda>r. snd r \<noteq> 0) (map (\<lambda>r. (r, v3_out quoter inRaw r)) rs))
   \<and> (quotePcsV3BestExactIn cfg quoter ps' = Inl NoRouteV3 \<longleftrightarrow>
        provider_available cfg \<and> v3_quoter_available cfg \<and> resolve_pair cfg ps' \<noteq> None \<and>
        (\<forall>r \<in> set (v3_candidates cfg ps'). v3_out quoter (parsedAmountIn ps') r = 0))
   \<and> (quotePcsV3BestExactIn cfg quoter ps' = Inr q' \<longrightarrow> 0 < amountOutRaw q')"
  using v2_ranked_mset[of router inRaw cs] v3_ranked_mset[of quoter inRaw rs]
    quotePcsV2_NoRoute_iff[of cfg router ps] quotePcsV3_NoRoute_iff[of cfg quoter ps']
    quotePcsV2_positive[of cfg router ps q] quotePcsV3_positive[of cfg quoter ps' q']
  by blast

theorem zero_output_candidates_are_excluded_witness:
  "quotePcsV2BestExactIn example_config failing_router example_params = Inl NoRouteV2
   \<and> 0 < amountOutRaw (example_split_result example_v2_path2)
   \<and> quotePcsV3BestExactIn example_config failing_quoter example_params_v3 = Inl NoRouteV3
   \<and> 0 < amountOutRaw (example_split_result example_v2_path1)"
proof -
  note dead = zero_output_candidates_are_excluded[where cfg = example_config
      and router = failing_router and ps = example_params
      and quoter = failing_quoter and ps' = example_params_v3]
  note live = zero_output_candidates_are_excluded[where cfg = example_config
      and router = example_router and ps = example_params
      and q = "example_split_result example_v2_path2"
      and quoter = example_quoter and ps' = example_params_v3
      and q' = "example_split_result example_v2_path1"]
  from dead example_available example_resolve_pair example_resolve_pair_v3
  have "quotePcsV2BestExactIn example_config failing_router example_params = Inl NoRouteV2"
    "quotePcsV3BestExactIn example_config failing_quoter example_params_v3 = Inl NoRouteV3"
    by (simp_all add: failing_router_out failing_quoter_out)
  moreover from live example_v2_quote example_v3_quote
  have "0 < amountOutRaw (example_split_result example_v2_path2)"
    "0 < amountOutRaw (example_split_result example_v2_path1)"
    by simp_all
  ultimately show ?thesis by simp
qed

lemma v2_ranked_cong:
  assumes "\<forall>c \<in> set cs. router inRaw c = router' inRaw c"
  shows "v2_ranked router inRaw cs = v2_ranked router' inRaw cs"
proof -
  have "v2_results router inRaw cs = v2_results router' inRaw cs"
    unfolding v2_results_def using assms by (intro map_cong refl) (simp add: evaluatePathOut_def)
  then show ?thesis by (simp add: v2_ranked_def)
qed

lemma v3_ranked_cong:
  assumes "\<forall>r \<in> set rs. evalRoute quoter inRaw r = evalRoute quoter' inRaw r"
  shows "v3_ranked quoter inRaw rs = v3_ranked quoter' inRaw rs"
proof -
  have "v3_outputs quoter inRaw rs = v3_outputs quoter' inRaw rs"
    unfolding v3_outputs_def using assms by (intro map_cong refl) simp
  then show ?thesis by (simp add: v3_ranked_def)
qed

text \<open>
  C3, as amended. The ranked list of either quoter is ordered by raw output, greatest
  first; routes of equal output keep the order in which the candidates were enumerated,
  whatever their number of hops; and two venues that give the same outputs to the
  candidates give the same ranking.
\<close>

theorem ranking_descending_and_stable:
  "sorted_wrt (\<lambda>a b. snd b \<le> snd a) (v2_ranked router inRaw cs)
   \<and> filter (\<lambda>r. snd r = v) (v2_ranked router inRaw cs)
       = filter (\<lambda>r. snd r = v) (filter_Boolean (v2_results router inRaw cs))
   \<and> ((\<forall>c \<in> set cs. router inRaw c = router' inRaw c) \<longrightarrow>
        v2_ranked router inRaw cs = v2_ranked router' inRaw cs)
   \<and> sorted_wrt (\<lambda>a b. snd b \<le> snd a) (v3_ranked quoter inRaw rs)
   \<and> filter (\<lambda>r. snd r = v) (v3_ranked quoter inRaw rs)
       = filter (\<lambda>r. snd r = v) (filter_Boolean (v3_outputs quoter inRaw rs))
   \<and> ((\<forall>r \<in> set rs. evalRoute quoter inRaw r = evalRoute quoter' inRaw r) \<longrightarrow>
        v3_ranked quoter inRaw rs = v3_ranked quoter' inRaw rs)"
  using sort_by_sorted[of snd "filter_Boolean (v2_results router inRaw cs)"]
    sort_by_stable[of snd v "filter_Boolean (v2_results router inRaw cs)"]
    sort_by_sorted[of snd "filter_Boolean (v3_outputs quoter inRaw rs)"]
    sort_by_stable[of snd v "filter_Boolean (v3_outputs quoter inRaw rs)"]
    v2_ranked_cong[of cs router inRaw router'] v3_ranked_cong[of rs quoter inRaw quoter']
  by (simp add: v2_ranked_def v3_ranked_def)

theorem ranking_descending_and_stable_witness:
  "v2_ranked example_router 1005 [example_v2_path1, example_v2_path2]
     = v2_ranked example_router_1005 1005 [example_v2_path1, example_v2_path2]
   \<and> v3_ranked example_quoter 1005 [example_v3_route 100, example_v3_route 500]
     = v3_ranked example_quoter_1005 1005 [example_v3_route 100, example_v3_route 500]"
proof -
  have a: "\<forall>c \<in> set [example_v2_path1, example_v2_path2].
             example_router 1005 c = example_router_1005 1005 c"
    by (simp add: example_router_1005_def)
  have b: "\<forall>r \<in> set [example_v3_route 100, example_v3_route 500].
             evalRoute example_quoter 1005 r = evalRoute example_quoter_1005 1005 r"
  proof -
    have q1: "quoteV3ExactInput example_quoter_1005 pb a = quoteV3ExactInput example_quoter pb a"
      for pb a
      by (simp add: quoteV3ExactInput_def example_quoter_1005_def split: option.splits)
    have q2: "quoteV3ExactInputSingle example_quoter_1005 ti to fee 1005
                = quoteV3ExactInputSingle example_quoter ti to fee 1005" for ti to fee
      by (simp add: quoteV3ExactInputSingle_def example_quoter_1005_def split: option.splits)
    have "evalRoute example_quoter 1005 r = evalRoute example_quoter_1005 1005 r" for r
      by (simp add: evalRoute_def q1 q2 Let_def split: sum.splits)
    then show ?thesis by simp
  qed
  from ranking_descending_and_stable[where router = example_router and router' = example_router_1005
      and inRaw = 1005 and cs = "[example_v2_path1, example_v2_path2]"
      and quoter = example_quoter and quoter' = example_quoter_1005
      and rs = "[example_v3_route 100, example_v3_route 500]"] a b
  show ?thesis by blast
qed

text \<open>
  C3, the tie-break by hops. With the intermediates USDC and BUSD, a request from BUSD to
  USDT enumerates the direct path, the path through USDC, and both of them once more
  (from \<open>[BUSD, BUSD, USDT]\<close> and \<open>[BUSD, BUSD, USDC, USDT]\<close> with the repeated address
  dropped). When the venue gives all of them the same output, the path through USDC
  stands at index 1 of the ranking, before the direct path at index 2.
\<close>

theorem ties_not_broken_by_hops_counterexample:
  "v2_ranked tie_router (parsedAmountIn busd_usdt_params)
       (v2_candidates intermediates_config busd_usdt_params)
     = [(path_BUSD_USDT, 5), (path_BUSD_USDC_USDT, 5), (path_BUSD_USDT, 5),
        (path_BUSD_USDC_USDT, 5)]
   \<and> snd (v2_ranked tie_router (parsedAmountIn busd_usdt_params)
              (v2_candidates intermediates_config busd_usdt_params) ! 1)
     = snd (v2_ranked tie_router (parsedAmountIn busd_usdt_params)
              (v2_candidates intermediates_config busd_usdt_params) ! 2)
   \<and> length (fst (v2_ranked tie_router (parsedAmountIn busd_usdt_params)
                     (v2_candidates intermediates_config busd_usdt_params) ! 1)) = 3
   \<and> length (fst (v2_ranked tie_router (parsedAmountIn busd_usdt_params)
                     (v2_candidates intermediates_config busd_usdt_params) ! 2)) = 2"
  by (simp add: busd_usdt_ranked path_BUSD_USDT_def path_BUSD_USDC_USDT_def)

section \<open>Best of the two venue families\<close>

lemma example_pancake_q2:
  "pancake_q2 example_config example_router example_params_direct = Inr (example_v2_single 600)"
  by code_simp

lemma example_pancake_q2_tie_router:
  "pancake_q2 example_config tie_router example_params_direct = Inr (example_v2_single 5)"
  by code_simp

lemma example_pancake_q2_failing:
  "pancake_q2 example_config failing_router example_params_direct = Inl NoRouteV2"
  by code_simp

lemma example_pancake_q3:
  "pancake_q3 example_config example_quoter example_params_direct = Inr example_v3_single"
  by code_simp

lemma example_pancake_q3_failing:
  "pancake_q3 example_config failing_quoter example_params_direct = Inl NoRouteV3"
  by code_simp

lemma example_single_out:
  "amountOutRaw (example_v2_single out) = out" "amountOutRaw example_v3_single = 600"
  by (simp_all add: example_v2_single_def example_v3_single_def v2_single_quote_fields
      v3_single_quote_fields)

text \<open>
  C8. The best quote of the two venue families: with both quotes it is the one of larger
  raw output, with one quote only it is that quote whatever made the other family fail,
  and it is an error exactly when both families fail. (The two quotes are settled
  independently; the order in time of their calls is not part of the model.)
\<close>

theorem pancake_best_of_both_families:
  "(isl (quotePancakeBest cfg router quoter ps) \<longleftrightarrow>
      isl (pancake_q2 cfg router ps) \<and> isl (pancake_q3 cfg quoter ps))
   \<and> (pancake_q2 cfg router ps = Inr ok2 \<and> isl (pancake_q3 cfg quoter ps) \<longrightarrow>
        quotePancakeBest cfg router quoter ps = Inr (ok2 \<lparr> provider := Some pcs_v2 \<rparr>))
   \<and> (isl (pancake_q2 cfg router ps) \<and> pancake_q3 cfg quoter ps = Inr ok3 \<longrightarrow>
        quotePancakeBest cfg router quoter ps = Inr (ok3 \<lparr> provider := Some pcs_v3 \<rparr>))
   \<and> (pancake_q2 cfg router ps = Inr ok2 \<and> pancake_q3 cfg quoter ps = Inr ok3 \<longrightarrow>
        (\<exists>q. quotePancakeBest cfg router quoter ps = Inr q
            \<and> (q = ok2 \<lparr> provider := Some pcs_v2 \<rparr> \<or> q = ok3 \<lparr> provider := Some pcs_v3 \<rparr>)
            \<and> amountOutRaw q = max (amountOutRaw ok2) (amountOutRaw ok3)))"
  by (cases "pancake_q2 cfg router ps"; cases "pancake_q3 cfg quoter ps")
     (auto simp: quotePancakeBest_def Let_def)

theorem pancake_best_of_both_families_witness:
  "quotePancakeBest example_config example_router failing_quoter example_params_direct
     = Inr (example_v2_single 600 \<lparr> provider := Some pcs_v2 \<rparr>)
   \<and> quotePancakeBest example_config failing_router example_quoter example_params_direct
     = Inr (example_v3_single \<lparr> provider := Some pcs_v3 \<rparr>)
   \<and> isl (quotePancakeBest example_config failing_router failing_quoter example_params_direct)
   \<and> quotePancakeBest example_config tie_router example_quoter example_params_direct
     = Inr (example_v3_single \<lparr> provider := Some pcs_v3 \<rparr>)"
proof -
  have a: "quotePancakeBest example_config example_router failing_quoter example_params_direct
     = Inr (example_v2_single 600 \<lparr> provider := Some pcs_v2 \<rparr>)"
    using pancake_best_of_both_families[where cfg = example_config and router = example_router
        and quoter = failing_quoter and ps = example_params_direct and ?ok2.0 = "example_v2_single 600"]
      example_pancake_q2 example_pancake_q3_failing by simp
  have b: "quotePancakeBest example_config failing_router example_quoter example_params_direct
     = Inr (example_v3_single \<lparr> provider := Some pcs_v3 \<rparr>)"
    using pancake_best_of_both_families[where cfg = example_config and router = failing_router
        and quoter = example_quoter and ps = example_params_direct and ?ok3.0 = example_v3_single]
      example_pancake_q2_failing example_pancake_q3 by simp
  have c: "isl (quotePancakeBest example_config failing_router failing_quoter example_params_direct)"
    using pancake_best_of_both_families[where cfg = example_config and router = failing_router
        and quoter = failing_quoter and ps = example_params_direct]
      example_pancake_q2_failing example_pancake_q3_failing by simp
  from pancake_best_of_both_families[where cfg = example_config and router = tie_router
        and quoter = example_quoter and ps = example_params_direct
        and ?ok2.0 = "example_v2_single 5" and ?ok3.0 = example_v3_single]
      example_pancake_q2_tie_router example_pancake_q3
  obtain q where q: "quotePancakeBest example_config tie_router example_quoter example_params_direct = Inr q"
    "q = example_v2_single 5 \<lparr> provider := Some pcs_v2 \<rparr> \<or> q = example_v3_single \<lparr> provider := Some pcs_v3 \<rparr>"
    "amountOutRaw q = max (amountOutRaw (example_v2_single 5)) (amountOutRaw example_v3_single)"
    by blast
  from q(3) have "amountOutRaw q = 600" by (simp add: example_single_out)
  with q(2) have "q = example_v3_single \<lparr> provider := Some pcs_v3 \<rparr>"
    by (auto simp: example_single_out)
  with q(1) a b c show ?thesis by simp
qed

text \<open>
  C10. When both venue families return a quote, the concentrated-liquidity quote is
  returned only if its raw output is strictly larger; on equal outputs the
  constant-product quote is returned.
\<close>

theorem pancake_tie_returns_v2:
  "pancake_q2 cfg router ps = Inr ok2 \<and> pancake_q3 cfg quoter ps = Inr ok3 \<longrightarrow>
     (amountOutRaw ok2 = amountOutRaw ok3 \<longrightarrow>
        quotePancakeBest cfg router quoter ps = Inr (ok2 \<lparr> provider := Some pcs_v2 \<rparr>))
     \<and> (quotePancakeBest cfg router quoter ps = Inr (ok3 \<lparr> provider := Some pcs_v3 \<rparr>) \<longleftrightarrow>
          amountOutRaw ok2 < amountOutRaw ok3)"
proof (rule impI)
  assume a: "pancake_q2 cfg router ps = Inr ok2 \<and> pancake_q3 cfg quoter ps = Inr ok3"
  have ne: "ok2 \<lparr> provider := Some pcs_v2 \<rparr> \<noteq> ok3 \<lparr> provider := Some pcs_v3 \<rparr>"
  proof
    assume "ok2 \<lparr> provider := Some pcs_v2 \<rparr> = ok3 \<lparr> provider := Some pcs_v3 \<rparr>"
    then have "provider (ok2 \<lparr> provider := Some pcs_v2 \<rparr>) = provider (ok3 \<lparr> provider := Some pcs_v3 \<rparr>)"
      by simp
    then show False by simp
  qed
  from a ne show "(amountOutRaw ok2 = amountOutRaw ok3 \<longrightarrow>
        quotePancakeBest cfg router quoter ps = Inr (ok2 \<lparr> provider := Some pcs_v2 \<rparr>))
     \<and> (quotePancakeBest cfg router quoter ps = Inr (ok3 \<lparr> provider := Some pcs_v3 \<rparr>) \<longleftrightarrow>
          amountOutRaw ok2 < amountOutRaw ok3)"
    by (auto simp: quotePancakeBest_def Let_def)
qed

theorem pancake_tie_returns_v2_witness:
  "quotePancakeBest example_config example_router example_quoter example_params_direct
     = Inr (example_v2_single 600 \<lparr> provider := Some pcs_v2 \<rparr>)
   \<and> amountOutRaw (example_v2_single 600) = amountOutRaw example_v3_single
   \<and> quotePancakeBest example_config tie_router example_quoter example_params_direct
     = Inr (example_v3_single \<lparr> provider := Some pcs_v3 \<rparr>)
   \<and> amountOutRaw (example_v2_single 5) < amountOutRaw example_v3_single"
  using pancake_tie_returns_v2[where cfg = example_config and router = example_router
        and quoter = example_quoter and ps = example_params_direct
        and ?ok2.0 = "example_v2_single 600" and ?ok3.0 = example_v3_single]
      pancake_tie_returns_v2[where cfg = example_config and router = tie_router
        and quoter = example_quoter and ps = example_params_direct
        and ?ok2.0 = "example_v2_single 5" and ?ok3.0 = example_v3_single]
      example_pancake_q2 example_pancake_q3 example_pancake_q2_tie_router
  by (simp add: example_single_out)

section \<open>Candidate paths\<close>




lemma clampMaxHops_ge_2: "mh \<noteq> Some NaN \<Longrightarrow> num_le (Fin 2) (clampMaxHops mh)"
proof (cases mh)
  case None
  then show ?thesis by (simp add: clampMaxHops_def Math_min_def Math_max_def)
next
  case (Some n)
  assume "mh \<noteq> Some NaN"
  with Some show ?thesis
    by (cases n) (auto simp: clampMaxHops_def Math_min_def Math_max_def)
qed

lemma addPath_mono: "p \<in> set c \<Longrightarrow> p \<in> set (addPath amh mh c raw)"
  by (simp add: addPath_def Let_def)

lemma addPath_direct:
  assumes "toLowerCase f \<noteq> toLowerCase t" and "amh \<longrightarrow> num_le (Fin 2) mh"
  shows "[f, t] \<in> set (addPath amh mh [] [f, t])"
  using assms by (simp add: addPath_def Let_def uniqueAddresses_Cons)

lemma v2_candidatePaths_direct:
  assumes "toLowerCase f \<noteq> toLowerCase t" and "amh \<longrightarrow> num_le (Fin 2) mh"
  shows "[f, t] \<in> set (v2_candidatePaths f t ia amh mh)"
  unfolding v2_candidatePaths_def Let_def
  by (rule enumeration_invariant[where I = "\<lambda>c. [f, t] \<in> set c"])
     (simp_all add: addPath_mono addPath_direct[OF assms])

text \<open>
  C4, as amended. When the two symbols resolve to addresses that differ after
  lowercasing, the direct path of these two addresses is among the candidate paths,
  with or without intermediate assets and for every maximum of hops that is a number.
\<close>

theorem direct_path_is_a_candidate:
  "resolve_pair cfg ps = Some (f, t) \<and> toLowerCase f \<noteq> toLowerCase t
     \<and> (Boolean (allowMultiHop ps) \<longrightarrow> maxHops ps \<noteq> Some NaN)
   \<longrightarrow> [f, t] \<in> set (v2_candidates cfg ps)"
  using v2_candidatePaths_direct[of f t "Boolean (allowMultiHop ps)" "clampMaxHops (maxHops ps)"]
    clampMaxHops_ge_2[of "maxHops ps"]
  by (auto simp: v2_candidates_def)

theorem direct_path_is_a_candidate_witness:
  "example_v2_path1 \<in> set (v2_candidates example_config example_params)"
proof -
  have n: "toLowerCase ''0xe9e7CEA3DedcA5984780Bafc599bD69ADd087D56''
             \<noteq> toLowerCase ''0x0E09Fabb73Bd3Ade0a17ECC321fD13a19e81cE82''"
    by code_simp
  have m: "maxHops example_params \<noteq> Some NaN" by (simp add: example_params_def)
  from direct_path_is_a_candidate[where cfg = example_config and ps = example_params
      and f = "''0xe9e7CEA3DedcA5984780Bafc599bD69ADd087D56''"
      and t = "''0x0E09Fabb73Bd3Ade0a17ECC321fD13a19e81cE82''"]
    example_resolve_pair n m
  show ?thesis by (simp add: example_v2_path1_def)
qed

theorem direct_path_missing_counterexample:
  "fromSymbol bnb_params \<noteq> toSymbol bnb_params
   \<and> resolve_pair default_config bnb_params
       = Some (''0xBB4CdB9CBd36B01bD1cBaEBF2De08d9173bc095c'', ''0xBB4CdB9CBd36B01bD1cBaEBF2De08d9173bc095c'')
   \<and> v2_candidates default_config bnb_params = []"
  by code_simp

section \<open>Path encoding\<close>

text \<open>
  C5, as amended. For at least two addresses (\<open>0x\<close> and forty hexadecimal digits each)
  and one fee below \<open>2^24\<close> for each hop, the encoder writes \<open>0x\<close>, the first address, and
  then for each hop the fee on three bytes and the next address on twenty bytes, all in
  lowercase hexadecimal; decoding the result gives back the fees and the addresses in
  lowercase.
\<close>

theorem path_encoding_round_trip:
  "2 \<le> length toks \<and> length fs = length toks - 1
     \<and> (\<forall>t \<in> set toks. is_address t) \<and> (\<forall>f \<in> set fs. 0 \<le> f \<and> f < 16777216)
   \<longrightarrow> (\<exists>hex. encodeV3Path toks fs = Inr hex
          \<and> hex = ''0x'' @ strip0x (toLowerCase (hd toks))
                    @ concat (map (\<lambda>(f, t). encode_hop f t) (zip fs (tl toks)))
          \<and> length hex = 2 + 40 * length toks + 6 * length fs
          \<and> decodeV3Path hex = Some (map toLowerCase toks, fs))"
proof (rule impI)
  assume a: "2 \<le> length toks \<and> length fs = length toks - 1
     \<and> (\<forall>t \<in> set toks. is_address t) \<and> (\<forall>f \<in> set fs. 0 \<le> f \<and> f < 16777216)"
  then obtain t0 ts where toks: "toks = t0 # ts" by (cases toks) auto
  let ?hops = "zip fs ts"
  from a toks have len: "length fs = length ts" by simp
  have t0: "is_address t0" using a toks by simp
  have hops: "\<forall>(f, t) \<in> set ?hops. 0 \<le> f \<and> f < 16777216 \<and> is_address t"
    using a toks by (auto dest: set_zip_leftD set_zip_rightD)
  let ?hex = "''0x'' @ strip0x (toLowerCase t0) @ concat (map (\<lambda>(f, t). encode_hop f t) ?hops)"
  have e: "encodeV3Path toks fs = Inr ?hex"
    using encodeV3Path_concat[of toks fs] a by (simp add: toks)
  have l: "length ?hex = 2 + 40 * length toks + 6 * length fs"
    using address_hex(2)[OF t0] hops_length[OF hops] len by (simp add: toks)
  have m1: "map (\<lambda>(f, t). toLowerCase t) ?hops = map toLowerCase ts"
    using len by (intro nth_equalityI) simp_all
  have m2: "map fst ?hops = fs" using len by simp
  have d: "decodeV3Path ?hex = Some (map toLowerCase toks, fs)"
    using decodeV3Path_encoded[OF t0 hops] by (simp add: m1 m2 toks)
  from e l d show "\<exists>hex. encodeV3Path toks fs = Inr hex
          \<and> hex = ''0x'' @ strip0x (toLowerCase (hd toks))
                    @ concat (map (\<lambda>(f, t). encode_hop f t) (zip fs (tl toks)))
          \<and> length hex = 2 + 40 * length toks + 6 * length fs
          \<and> decodeV3Path hex = Some (map toLowerCase toks, fs)"
    by (simp add: toks)
qed

lemma example_encoded:
  "encodeV3Path [USDT_address, USDC_address, USDT_address] [500, 10000]
     = Inr ''0x55d398326f99059ff775485246999027b31979550001f48ac76a51cc950d9822d68b83fe1ad97b32cd580d00271055d398326f99059ff775485246999027b3197955''"
  by code_simp

lemma example_addresses:
  "is_address USDT_address" "is_address USDC_address"
  "toLowerCase USDT_address = USDT_lowercase" "toLowerCase USDC_address = USDC_address"
  by code_simp+

theorem path_encoding_round_trip_witness:
  "decodeV3Path ''0x55d398326f99059ff775485246999027b31979550001f48ac76a51cc950d9822d68b83fe1ad97b32cd580d00271055d398326f99059ff775485246999027b3197955''
     = Some ([USDT_lowercase, USDC_address, USDT_lowercase], [500, 10000])"
proof -
  from path_encoding_round_trip[of "[USDT_address, USDC_address, USDT_address]" "[500, 10000]"]
    example_addresses(1,2)
  obtain hex where h: "encodeV3Path [USDT_address, USDC_address, USDT_address] [500, 10000] = Inr hex"
    "decodeV3Path hex
       = Some (map toLowerCase [USDT_address, USDC_address, USDT_address], [500, 10000])"
    by auto
  from h(1) have "hex = ''0x55d398326f99059ff775485246999027b31979550001f48ac76a51cc950d9822d68b83fe1ad97b32cd580d00271055d398326f99059ff775485246999027b3197955''"
    unfolding example_encoded by simp
  with h(2) show ?thesis by (simp add: example_addresses(3,4))
qed

theorem path_encoding_loses_case_counterexample:
  "encodeV3Path [USDT_address, USDC_address] [500]
     = Inr ''0x55d398326f99059ff775485246999027b31979550001f48ac76a51cc950d9822d68b83fe1ad97b32cd580d''
   \<and> encodeV3Path [USDT_lowercase, USDC_address] [500]
     = Inr ''0x55d398326f99059ff775485246999027b31979550001f48ac76a51cc950d9822d68b83fe1ad97b32cd580d''
   \<and> USDT_address \<noteq> USDT_lowercase
   \<and> decodeV3Path ''0x55d398326f99059ff775485246999027b31979550001f48ac76a51cc950d9822d68b83fe1ad97b32cd580d''
     = Some ([USDT_lowercase, USDC_address], [500])
   \<and> encodeV3Path [USDT_lowercase, USDC_address] [16777216]
     = Inr ''0x55d398326f99059ff775485246999027b319795510000008ac76a51cc950d9822d68b83fe1ad97b32cd580d''
   \<and> decodeV3Path ''0x55d398326f99059ff775485246999027b319795510000008ac76a51cc950d9822d68b83fe1ad97b32cd580d''
     = None"
  by code_simp

section \<open>Slippage tolerance\<close>








end
